theory Spec2Isabelle
  imports Main
begin

section \<open>The entity pool of src/entitysystem.cpp\<close>

text \<open>
  The pool is the C++ struct \<open>EntityData\<close>: three arrays indexed by entity id or by slot
  (\<open>positions\<close>, \<open>alive_indices\<close>, \<open>dead_indices\<close>), the two counts, and the occupancy
  grid \<open>grid[x][y]\<close> of optional entity ids. Every function of the namespace
  \<open>EntitySystem\<close> is translated below, in the order of the source file.

  The header \<open>include/main.hpp\<close>, which declares \<open>Position\<close>, \<open>Direction\<close>, \<open>Tile\<close>,
  \<open>EntityData\<close> and the constants \<open>MAX_ENTITIES\<close>, \<open>GRID_WIDTH\<close>, \<open>GRID_HEIGHT\<close>, is not
  among the sources. The constants are taken as parameters (the record \<open>Constants\<close>); the
  types are modelled from the data model of the specification and from their uses in
  \<open>entitysystem.cpp\<close>.
\<close>

subsection \<open>Data\<close>

text \<open>Modelled from the spec: the declaration of \<open>Position\<close> is missing; it is "a pair
  of integer coordinates (x, y)", read in the source as \<open>pos.x\<close> and \<open>pos.y\<close>. A
  coordinate is a C++ \<open>int\<close> of 32 bits: a value between \<open>INT_MIN\<close> and \<open>INT_MAX\<close>.\<close>

record Position =
  x :: int
  y :: int

definition INT_MIN :: int where
  "INT_MIN = - 2147483648"

definition INT_MAX :: int where
  "INT_MAX = 2147483647"

text \<open>The value an \<open>int\<close> holds after an addition or subtraction whose mathematical result
  is \<open>v\<close>. Where \<open>v\<close> is outside the range the operation overflows, which is undefined in
  C++; the build wraps around in two's complement, and so does the model.\<close>

definition wrap_int :: "int \<Rightarrow> int" where
  "wrap_int v = (v + 2147483648) mod 4294967296 - 2147483648"

text \<open>Modelled from the spec: the declaration of \<open>Direction\<close> is missing; it is "an
  enumerated value over four compass directions". The constructors are the four
  enumerators the \<open>switch\<close> of \<open>get_new_position\<close> names, in its order, and
  \<open>UNRECOGNIZED v\<close> for a \<open>Direction\<close> object holding any other value \<open>v\<close> (the \<open>default\<close>
  branch).\<close>

datatype Direction = NORTH | EAST | SOUTH | WEST | UNRECOGNIZED int

text \<open>Modelled from the spec: the declaration of \<open>Tile\<close> is missing; it "exposes a boolean
  traversable attribute", the only member the source reads.\<close>

record Tile =
  traversable :: bool

text \<open>The tile map \<open>const Tile map[][WORLD_HEIGHT]\<close>: the caller's array of columns, of
  whatever size the caller made it.\<close>

type_synonym TileMap = "Tile list list"

text \<open>Modelled from the spec: the declaration of \<open>EntityData\<close> is missing. Its members are
  those the source accesses, under the source's names: the arrays \<open>positions\<close>,
  \<open>alive_indices\<close> and \<open>dead_indices\<close>, indexed from 0, the grid of optional ids indexed as
  \<open>grid[x][y]\<close>, and the two counts. The declared sizes of the arrays are the predicate
  \<open>pool_shape\<close> below.\<close>

record EntityData =
  positions :: "Position list"
  alive_indices :: "int list"
  dead_indices :: "int list"
  grid :: "int option list list"
  alive_count :: int
  dead_count :: int

text \<open>The constants of the missing header, as parameters of the model.\<close>

record Constants =
  MAX_ENTITIES :: int
  GRID_WIDTH :: int
  GRID_HEIGHT :: int

text \<open>An array access outside the array is undefined behaviour in C++; the model stops
  there with \<open>OutOfBounds\<close>.\<close>

datatype error = OutOfBounds

definition in_range :: "int \<Rightarrow> 'a list \<Rightarrow> bool" where
  "in_range i xs = (0 \<le> i \<and> i < int (length xs))"

text \<open>\<open>g[pos.x][pos.y]\<close> on a two-dimensional array: the index test, the read and the write.\<close>

definition in_grid :: "'a list list \<Rightarrow> Position \<Rightarrow> bool" where
  "in_grid g pos = (in_range (x pos) g \<and> in_range (y pos) (g ! nat (x pos)))"

definition grid_at :: "'a list list \<Rightarrow> Position \<Rightarrow> 'a" where
  "grid_at g pos = g ! nat (x pos) ! nat (y pos)"

definition grid_set :: "'a list list \<Rightarrow> Position \<Rightarrow> 'a \<Rightarrow> 'a list list" where
  "grid_set g pos v = g[nat (x pos) := (g ! nat (x pos))[nat (y pos) := v]]"

subsection \<open>initialize\<close>

text \<open>The loop \<open>for (int i = 0; i < MAX_ENTITIES; i++)\<close> of \<open>initialize\<close>, from counter \<open>i\<close>.\<close>

function initialize_loop :: "Constants \<Rightarrow> int \<Rightarrow> EntityData \<Rightarrow> error + EntityData" where
  "initialize_loop c i d =
     (if i < MAX_ENTITIES c then
        if \<not> in_range i (dead_indices d) \<or> \<not> in_range i (positions d) then Inl OutOfBounds
        else initialize_loop c (i + 1)
               (d\<lparr>dead_indices := (dead_indices d)[nat i := i],
                  positions := (positions d)[nat i := \<lparr>x = 0, y = 0\<rparr>]\<rparr>)
      else Inr d)"
  by pat_completeness auto
termination
  by (relation "measure (\<lambda>(c, i, d). nat (MAX_ENTITIES c - i))") auto

text \<open>\<open>initialize\<close>: the loop, then every column of the grid filled with \<open>nullopt\<close>.
  Neither count is written.\<close>

definition initialize :: "Constants \<Rightarrow> EntityData \<Rightarrow> error + EntityData" where
  "initialize c d =
     (case initialize_loop c 0 d of
        Inl e \<Rightarrow> Inl e
      | Inr d' \<Rightarrow> Inr (d'\<lparr>grid := map (\<lambda>column. replicate (length column) None) (grid d')\<rparr>))"

subsection \<open>Queries\<close>

definition is_valid_position :: "Constants \<Rightarrow> Position \<Rightarrow> bool" where
  "is_valid_position c pos =
     (x pos \<ge> 0 \<and> x pos < GRID_WIDTH c \<and> y pos \<ge> 0 \<and> y pos < GRID_HEIGHT c)"

text \<open>\<open>is_occupied\<close>: the grid is declared with \<open>GRID_WIDTH\<close> columns of \<open>GRID_HEIGHT\<close>
  cells, so the read follows the validity test as in the source (\<open>&&\<close> does not evaluate its
  right operand when the left one is false).\<close>

definition is_occupied :: "Constants \<Rightarrow> EntityData \<Rightarrow> Position \<Rightarrow> bool" where
  "is_occupied c d pos = (is_valid_position c pos \<and> grid_at (grid d) pos \<noteq> None)"

text \<open>The read \<open>map[pos.x][pos.y]\<close> of the caller's tile map.\<close>

definition tile_at :: "TileMap \<Rightarrow> Position \<Rightarrow> error + Tile" where
  "tile_at tmap pos = (if in_grid tmap pos then Inr (grid_at tmap pos) else Inl OutOfBounds)"

definition is_traversable :: "Constants \<Rightarrow> EntityData \<Rightarrow> TileMap \<Rightarrow> Position \<Rightarrow> error + bool" where
  "is_traversable c d tmap pos =
     (if is_valid_position c pos \<and> \<not> is_occupied c d pos then
        (case tile_at tmap pos of
           Inl e \<Rightarrow> Inl e
         | Inr tile \<Rightarrow> Inr (traversable tile))
      else Inr False)"

text \<open>\<open>get_new_position\<close>: the \<open>switch\<close>, with the \<open>int\<close> arithmetic of the four cases.\<close>

fun get_new_position :: "Position \<Rightarrow> Direction \<Rightarrow> Position" where
  "get_new_position current_pos NORTH =
     \<lparr>x = x current_pos, y = wrap_int (y current_pos - 1)\<rparr>"
| "get_new_position current_pos EAST =
     \<lparr>x = wrap_int (x current_pos - 1), y = y current_pos\<rparr>"
| "get_new_position current_pos SOUTH =
     \<lparr>x = x current_pos, y = wrap_int (y current_pos + 1)\<rparr>"
| "get_new_position current_pos WEST =
     \<lparr>x = wrap_int (x current_pos + 1), y = y current_pos\<rparr>"
| "get_new_position current_pos (UNRECOGNIZED v) = current_pos"

subsection \<open>create_entity\<close>

text \<open>The result is the returned \<open>std::optional<int>\<close> and the pool after the call. The
  two \<open>TraceLog\<close> calls only print. \<open>||\<close> does not call \<open>is_traversable\<close> when
  \<open>dead_count\<close> is 0.\<close>

definition create_entity ::
  "Constants \<Rightarrow> EntityData \<Rightarrow> TileMap \<Rightarrow> Position \<Rightarrow> error + (int option \<times> EntityData)" where
  "create_entity c d tmap pos =
     (if dead_count d = 0 then Inr (None, d)
      else case is_traversable c d tmap pos of
        Inl e \<Rightarrow> Inl e
      | Inr t \<Rightarrow>
          if \<not> t then Inr (None, d)
          else if \<not> in_range (dead_count d - 1) (dead_indices d) then Inl OutOfBounds
          else
            let entity_idx = dead_indices d ! nat (dead_count d - 1);
                d1 = d\<lparr>dead_count := dead_count d - 1\<rparr>
            in if \<not> in_range (alive_count d1) (alive_indices d1) then Inl OutOfBounds
            else
              let d2 = d1\<lparr>alive_indices := (alive_indices d1)[nat (alive_count d1) := entity_idx]\<rparr>;
                  d3 = d2\<lparr>alive_count := alive_count d2 + 1\<rparr>
              in if \<not> in_range entity_idx (positions d3) then Inl OutOfBounds
              else
                let d4 = d3\<lparr>positions := (positions d3)[nat entity_idx := pos]\<rparr>
                in if \<not> in_grid (grid d4) pos then Inl OutOfBounds
                else Inr (Some entity_idx,
                          d4\<lparr>grid := grid_set (grid d4) pos (Some entity_idx)\<rparr>))"

subsection \<open>kill_entity\<close>

text \<open>The body of the \<open>if\<close> inside the loop of \<open>kill_entity\<close>, at slot \<open>i\<close>.\<close>

definition kill_entity_body :: "EntityData \<Rightarrow> int \<Rightarrow> int \<Rightarrow> error + EntityData" where
  "kill_entity_body d entity_idx i =
     (if \<not> in_range entity_idx (positions d) then Inl OutOfBounds
      else
        let pos = positions d ! nat entity_idx
        in if \<not> in_grid (grid d) pos then Inl OutOfBounds
        else
          let d1 = d\<lparr>grid := grid_set (grid d) pos None\<rparr>
          in if \<not> in_range i (alive_indices d1) \<or> \<not> in_range (alive_count d1 - 1) (alive_indices d1)
             then Inl OutOfBounds
          else
            let d2 = d1\<lparr>alive_indices :=
                         (alive_indices d1)[nat i := alive_indices d1 ! nat (alive_count d1 - 1)]\<rparr>;
                d3 = d2\<lparr>alive_count := alive_count d2 - 1\<rparr>
            in if \<not> in_range (dead_count d3) (dead_indices d3) then Inl OutOfBounds
            else Inr (d3\<lparr>dead_indices := (dead_indices d3)[nat (dead_count d3) := entity_idx],
                         dead_count := dead_count d3 + 1\<rparr>))"

text \<open>The loop \<open>for (int i = 0; i < data->alive_count; i++)\<close>, from counter \<open>i\<close>. The bound
  is read again at every iteration, and the scan goes on after a match.\<close>

function kill_entity_loop :: "EntityData \<Rightarrow> int \<Rightarrow> int \<Rightarrow> error + EntityData" where
  "kill_entity_loop d entity_idx i =
     (if i < alive_count d then
        if \<not> in_range i (alive_indices d) then Inl OutOfBounds
        else if alive_indices d ! nat i = entity_idx then
          (case kill_entity_body d entity_idx i of
             Inl e \<Rightarrow> Inl e
           | Inr d' \<Rightarrow> kill_entity_loop d' entity_idx (i + 1))
        else kill_entity_loop d entity_idx (i + 1)
      else Inr d)"
  by pat_completeness auto
termination
  by (relation "measure (\<lambda>(d, entity_idx, i). nat (alive_count d - i))")
     (auto simp: kill_entity_body_def Let_def split: if_splits)

definition kill_entity :: "EntityData \<Rightarrow> int \<Rightarrow> error + EntityData" where
  "kill_entity d entity_idx = kill_entity_loop d entity_idx 0"

subsection \<open>move_entity\<close>

text \<open>The result is the returned \<open>bool\<close> and the pool after the call.\<close>

definition move_entity ::
  "Constants \<Rightarrow> EntityData \<Rightarrow> TileMap \<Rightarrow> int \<Rightarrow> Direction \<Rightarrow> error + (bool \<times> EntityData)" where
  "move_entity c d tmap entity_idx dir =
     (if \<not> in_range entity_idx (positions d) then Inl OutOfBounds
      else
        let current = positions d ! nat entity_idx;
            new_pos = get_new_position current dir
        in case is_traversable c d tmap new_pos of
          Inl e \<Rightarrow> Inl e
        | Inr t \<Rightarrow>
            if t then
              if \<not> in_grid (grid d) current then Inl OutOfBounds
              else
                let d1 = d\<lparr>grid := grid_set (grid d) current None\<rparr>
                in if \<not> in_grid (grid d1) new_pos then Inl OutOfBounds
                else
                  let d2 = d1\<lparr>grid := grid_set (grid d1) new_pos (Some entity_idx)\<rparr>
                  in Inr (True, d2\<lparr>positions := (positions d2)[nat entity_idx := new_pos]\<rparr>)
            else Inr (False, d))"

subsection \<open>The invariants of the pool\<close>

text \<open>The live ids are the first \<open>alive_count\<close> entries of \<open>alive_indices\<close>, the free ids the
  first \<open>dead_count\<close> entries of \<open>dead_indices\<close>; the top of the free stack is the last one.\<close>

definition alive_ids :: "EntityData \<Rightarrow> int list" where
  "alive_ids d = take (nat (alive_count d)) (alive_indices d)"

definition dead_ids :: "EntityData \<Rightarrow> int list" where
  "dead_ids d = take (nat (dead_count d)) (dead_indices d)"

text \<open>The sizes the arrays of \<open>EntityData\<close> are declared with: \<open>MAX_ENTITIES\<close> entries in
  each of the three arrays, \<open>GRID_WIDTH\<close> columns of \<open>GRID_HEIGHT\<close> cells in the grid.\<close>

definition pool_shape :: "Constants \<Rightarrow> EntityData \<Rightarrow> bool" where
  "pool_shape c d =
     (int (length (positions d)) = MAX_ENTITIES c \<and>
      int (length (alive_indices d)) = MAX_ENTITIES c \<and>
      int (length (dead_indices d)) = MAX_ENTITIES c \<and>
      int (length (grid d)) = GRID_WIDTH c \<and>
      (\<forall>column \<in> set (grid d). int (length column) = GRID_HEIGHT c))"

text \<open>The tile map has a tile for every position of the grid.\<close>

definition tile_map_covers :: "Constants \<Rightarrow> TileMap \<Rightarrow> bool" where
  "tile_map_covers c tmap =
     (GRID_WIDTH c \<le> int (length tmap) \<and>
      (\<forall>column \<in> set tmap. GRID_HEIGHT c \<le> int (length column)))"

text \<open>Partition: the counts add up to the capacity, and the live ids followed by the free
  ids list every id of \<open>[0, MAX_ENTITIES)\<close> once.\<close>

definition partition_inv :: "Constants \<Rightarrow> EntityData \<Rightarrow> bool" where
  "partition_inv c d =
     (0 \<le> alive_count d \<and> 0 \<le> dead_count d \<and>
      alive_count d + dead_count d = MAX_ENTITIES c \<and>
      distinct (alive_ids d @ dead_ids d) \<and>
      set (alive_ids d @ dead_ids d) = {0..<MAX_ENTITIES c})"

text \<open>Grid/position consistency, in both directions: a live id sits in the cell of its
  position, and an occupied cell holds a live id whose position is that cell.\<close>

definition grid_consistent :: "Constants \<Rightarrow> EntityData \<Rightarrow> bool" where
  "grid_consistent c d =
     ((\<forall>e \<in> set (alive_ids d).
         in_range e (positions d) \<and> is_valid_position c (positions d ! nat e) \<and>
         grid_at (grid d) (positions d ! nat e) = Some e) \<and>
      (\<forall>px \<in> {0..<GRID_WIDTH c}. \<forall>py \<in> {0..<GRID_HEIGHT c}.
         case grid_at (grid d) \<lparr>x = px, y = py\<rparr> of
           None \<Rightarrow> True
         | Some e \<Rightarrow> e \<in> set (alive_ids d) \<and> in_range e (positions d) \<and>
                     positions d ! nat e = \<lparr>x = px, y = py\<rparr>))"

definition pool_inv :: "Constants \<Rightarrow> EntityData \<Rightarrow> bool" where
  "pool_inv c d = (pool_shape c d \<and> partition_inv c d \<and> grid_consistent c d)"

text \<open>The pools on which \<open>initialize\<close> establishes the invariants: arrays of the declared
  sizes holding anything, \<open>alive_count\<close> 0 and \<open>dead_count\<close> \<open>MAX_ENTITIES\<close>. \<open>initialize\<close>
  writes neither count, so it has to find them so.\<close>

definition fresh_pool :: "Constants \<Rightarrow> EntityData \<Rightarrow> bool" where
  "fresh_pool c d = (pool_shape c d \<and> alive_count d = 0 \<and> dead_count d = MAX_ENTITIES c)"

text \<open>The reachable pools: \<open>initialize\<close> on a fresh pool, then any calls of \<open>create_entity\<close>,
  \<open>kill_entity\<close> and \<open>move_entity\<close>, with any arguments, that stay inside the arrays.\<close>

inductive reachable :: "Constants \<Rightarrow> EntityData \<Rightarrow> bool" for c :: Constants where
  reach_initialize: "fresh_pool c d0 \<Longrightarrow> initialize c d0 = Inr d \<Longrightarrow> reachable c d"
| reach_create: "reachable c d \<Longrightarrow> create_entity c d tmap pos = Inr (r, d') \<Longrightarrow> reachable c d'"
| reach_kill: "reachable c d \<Longrightarrow> kill_entity d entity_idx = Inr d' \<Longrightarrow> reachable c d'"
| reach_move: "reachable c d \<Longrightarrow> move_entity c d tmap entity_idx dir = Inr (b, d') \<Longrightarrow> reachable c d'"

subsection \<open>Example pools\<close>

text \<open>Capacity 5 on a 10 by 10 grid whose tiles are all traversable. \<open>example_fresh\<close> is a
  fresh pool; \<open>example_two\<close> is the pool after \<open>initialize\<close> and two creations, at (2,3) (id
  4) and at (2,2) (id 3).\<close>

definition example_constants :: Constants where
  "example_constants = \<lparr>MAX_ENTITIES = 5, GRID_WIDTH = 10, GRID_HEIGHT = 10\<rparr>"

definition example_tiles :: TileMap where
  "example_tiles = replicate 10 (replicate 10 \<lparr>traversable = True\<rparr>)"

definition example_fresh :: EntityData where
  "example_fresh =
     \<lparr>positions = replicate 5 \<lparr>x = 0, y = 0\<rparr>, alive_indices = replicate 5 0,
      dead_indices = replicate 5 0, grid = replicate 10 (replicate 10 None),
      alive_count = 0, dead_count = 5\<rparr>"

definition example_two :: EntityData where
  "example_two =
     \<lparr>positions = [\<lparr>x = 0, y = 0\<rparr>, \<lparr>x = 0, y = 0\<rparr>, \<lparr>x = 0, y = 0\<rparr>,
                   \<lparr>x = 2, y = 2\<rparr>, \<lparr>x = 2, y = 3\<rparr>],
      alive_indices = [4, 3, 0, 0, 0],
      dead_indices = [0, 1, 2, 3, 4],
      grid = (replicate 10 (replicate 10 None))[2 := (replicate 10 None)[2 := Some 3, 3 := Some 4]],
      alive_count = 2, dead_count = 3\<rparr>"

text \<open>\<open>example_two\<close> after another call of \<open>initialize\<close>.\<close>

definition example_two_reinitialized :: EntityData where
  "example_two_reinitialized =
     \<lparr>positions = replicate 5 \<lparr>x = 0, y = 0\<rparr>,
      alive_indices = [4, 3, 0, 0, 0],
      dead_indices = [0, 1, 2, 3, 4],
      grid = replicate 10 (replicate 10 None),
      alive_count = 2, dead_count = 3\<rparr>"

text \<open>The run of the LIFO scenario: \<open>initialize\<close> on the fresh pool gives \<open>example_initial\<close>;
  five creations, at (2,3), (2,2), (5,5), (0,0) and (9,9), give \<open>example_one\<close> to
  \<open>example_five\<close> (\<open>example_two\<close> is the second); killing id 2, the third created, gives
  \<open>example_killed\<close>.\<close>

definition example_initial :: EntityData where
  "example_initial = example_fresh\<lparr>dead_indices := [0, 1, 2, 3, 4]\<rparr>"

definition example_one :: EntityData where
  "example_one =
     example_initial\<lparr>positions := (positions example_initial)[4 := \<lparr>x = 2, y = 3\<rparr>],
                     alive_indices := [4, 0, 0, 0, 0],
                     grid := (replicate 10 (replicate 10 None))[2 := (replicate 10 None)[3 := Some 4]],
                     alive_count := 1, dead_count := 4\<rparr>"

definition example_three :: EntityData where
  "example_three =
     example_two\<lparr>positions := (positions example_two)[2 := \<lparr>x = 5, y = 5\<rparr>],
                 alive_indices := [4, 3, 2, 0, 0],
                 grid := (replicate 10 (replicate 10 None))
                   [2 := (replicate 10 None)[2 := Some 3, 3 := Some 4],
                    5 := (replicate 10 None)[5 := Some 2]],
                 alive_count := 3, dead_count := 2\<rparr>"

definition example_four :: EntityData where
  "example_four =
     example_three\<lparr>positions := (positions example_three)[1 := \<lparr>x = 0, y = 0\<rparr>],
                   alive_indices := [4, 3, 2, 1, 0],
                   grid := (replicate 10 (replicate 10 None))
                     [0 := (replicate 10 None)[0 := Some 1],
                      2 := (replicate 10 None)[2 := Some 3, 3 := Some 4],
                      5 := (replicate 10 None)[5 := Some 2]],
                   alive_count := 4, dead_count := 1\<rparr>"

definition example_five :: EntityData where
  "example_five =
     example_four\<lparr>positions := (positions example_four)[0 := \<lparr>x = 9, y = 9\<rparr>],
                  alive_indices := [4, 3, 2, 1, 0],
                  grid := (replicate 10 (replicate 10 None))
                    [0 := (replicate 10 None)[0 := Some 1],
                     2 := (replicate 10 None)[2 := Some 3, 3 := Some 4],
                     5 := (replicate 10 None)[5 := Some 2],
                     9 := (replicate 10 None)[9 := Some 0]],
                  alive_count := 5, dead_count := 0\<rparr>"

definition example_killed :: EntityData where
  "example_killed =
     example_five\<lparr>alive_indices := [4, 3, 0, 1, 0],
                  dead_indices := [2, 1, 2, 3, 4],
                  grid := (replicate 10 (replicate 10 None))
                    [0 := (replicate 10 None)[0 := Some 1],
                     2 := (replicate 10 None)[2 := Some 3, 3 := Some 4],
                     9 := (replicate 10 None)[9 := Some 0]],
                  alive_count := 4, dead_count := 1\<rparr>"

text \<open>A pool all of whose members are zero, and the same pool after \<open>initialize\<close>.\<close>

definition example_zeroed :: EntityData where
  "example_zeroed = example_fresh\<lparr>dead_count := 0\<rparr>"

definition example_zeroed_initialized :: EntityData where
  "example_zeroed_initialized = example_zeroed\<lparr>dead_indices := [0, 1, 2, 3, 4]\<rparr>"

text \<open>\<open>example_killed\<close> after another call of \<open>initialize\<close>.\<close>

definition example_killed_reinitialized :: EntityData where
  "example_killed_reinitialized =
     example_killed\<lparr>dead_indices := [0, 1, 2, 3, 4],
                    positions := replicate 5 \<lparr>x = 0, y = 0\<rparr>,
                    grid := replicate 10 (replicate 10 None)\<rparr>"

section \<open>Properties\<close>

declare initialize_loop.simps [simp del]
declare kill_entity_loop.simps [simp del]

subsection \<open>Arrays and the grid\<close>

lemma Position_eq_iff: "(p = (q::Position)) = (x p = x q \<and> y p = y q)"
  by auto

lemma grid_at_grid_set:
  "in_grid g p \<Longrightarrow> in_grid g q \<Longrightarrow> grid_at (grid_set g p v) q = (if p = q then v else grid_at g q)"
  by (auto simp: in_grid_def in_range_def grid_at_def grid_set_def Position_eq_iff
      nth_list_update nat_eq_iff)

lemma length_nth_update_row:
  "length (g[i := (g ! i)[j := v]] ! k) = length (g ! k)"
proof (cases "i < length g")
  case True
  then show ?thesis by (simp add: nth_list_update)
next
  case False
  then have "g[i := (g ! i)[j := v]] = g" by (simp add: list_update_beyond)
  then show ?thesis by simp
qed

lemma in_grid_grid_set [simp]: "in_grid (grid_set g p v) q = in_grid g q"
  by (simp add: in_grid_def in_range_def grid_set_def length_nth_update_row)

lemma length_grid_set [simp]: "length (grid_set g p v) = length g"
  by (simp add: grid_set_def)

lemma grid_set_shape:
  assumes "\<forall>column \<in> set g. int (length column) = h"
  shows "\<forall>column \<in> set (grid_set g p v). int (length column) = h"
proof
  fix column
  assume "column \<in> set (grid_set g p v)"
  then obtain k where k: "k < length g" and col: "column = grid_set g p v ! k"
    by (auto simp: in_set_conv_nth)
  have "length column = length (g ! k)"
    unfolding col grid_set_def by (rule length_nth_update_row)
  moreover have "g ! k \<in> set g"
    using k by simp
  ultimately show "int (length column) = h"
    using assms by simp
qed

lemma valid_in_grid:
  "pool_shape c d \<Longrightarrow> is_valid_position c p \<Longrightarrow> in_grid (grid d) p"
  by (auto simp: pool_shape_def is_valid_position_def in_grid_def in_range_def)

lemma valid_in_tile_map:
  assumes "tile_map_covers c tmap" and "is_valid_position c p"
  shows "in_grid tmap p"
proof -
  have xp: "0 \<le> x p" "nat (x p) < length tmap"
    using assms by (auto simp: tile_map_covers_def is_valid_position_def)
  then have "tmap ! nat (x p) \<in> set tmap"
    by simp
  then have "GRID_HEIGHT c \<le> int (length (tmap ! nat (x p)))"
    using assms(1) by (simp add: tile_map_covers_def)
  then show ?thesis
    using assms(2) xp by (auto simp: is_valid_position_def in_grid_def in_range_def)
qed

subsection \<open>get_new_position\<close>

lemma wrap_int_id: "INT_MIN \<le> v \<Longrightarrow> v \<le> INT_MAX \<Longrightarrow> wrap_int v = v"
  by (simp add: wrap_int_def INT_MIN_def INT_MAX_def)

lemma wrap_int_range: "INT_MIN \<le> wrap_int v \<and> wrap_int v \<le> INT_MAX"
  by (simp add: wrap_int_def INT_MIN_def INT_MAX_def)

text \<open>At the edge of \<open>int\<close> the shifted coordinate wraps around.\<close>

lemma get_new_position_wraps:
  "get_new_position \<lparr>x = px, y = INT_MIN\<rparr> NORTH = \<lparr>x = px, y = INT_MAX\<rparr>"
  "get_new_position \<lparr>x = px, y = INT_MAX\<rparr> SOUTH = \<lparr>x = px, y = INT_MIN\<rparr>"
  "get_new_position \<lparr>x = INT_MIN, y = py\<rparr> EAST = \<lparr>x = INT_MAX, y = py\<rparr>"
  "get_new_position \<lparr>x = INT_MAX, y = py\<rparr> WEST = \<lparr>x = INT_MIN, y = py\<rparr>"
  by (simp_all add: wrap_int_def INT_MIN_def INT_MAX_def)

text \<open>
  Claim C8. \<open>get_new_position\<close> is a function of its two arguments alone. From a position
  (x, y) of \<open>int\<close> coordinates it returns (x, y - 1) for NORTH, (x, y + 1) for SOUTH,
  (x - 1, y) for EAST and (x + 1, y) for WEST, wherever the \<open>int\<close> subtraction or addition
  does not overflow, and the position it was given for any other direction value.
\<close>

theorem get_new_position_deltas:
  assumes "INT_MIN \<le> px \<and> px \<le> INT_MAX" and "INT_MIN \<le> py \<and> py \<le> INT_MAX"
  shows "(INT_MIN < py \<longrightarrow>
            get_new_position \<lparr>x = px, y = py\<rparr> NORTH = \<lparr>x = px, y = py - 1\<rparr>) \<and>
         (py < INT_MAX \<longrightarrow>
            get_new_position \<lparr>x = px, y = py\<rparr> SOUTH = \<lparr>x = px, y = py + 1\<rparr>) \<and>
         (INT_MIN < px \<longrightarrow>
            get_new_position \<lparr>x = px, y = py\<rparr> EAST = \<lparr>x = px - 1, y = py\<rparr>) \<and>
         (px < INT_MAX \<longrightarrow>
            get_new_position \<lparr>x = px, y = py\<rparr> WEST = \<lparr>x = px + 1, y = py\<rparr>) \<and>
         get_new_position current (UNRECOGNIZED v) = current"
  using assms by (simp add: wrap_int_id)

text \<open>From (2,3), and from (0,0) where two of the results leave the grid.\<close>

theorem get_new_position_deltas_witness:
  "INT_MIN \<le> 2 \<and> 2 \<le> INT_MAX \<and> INT_MIN \<le> 3 \<and> 3 \<le> INT_MAX \<and> INT_MIN \<le> 0 \<and> 0 \<le> INT_MAX \<and>
   get_new_position \<lparr>x = 2, y = 3\<rparr> NORTH = \<lparr>x = 2, y = 2\<rparr> \<and>
   get_new_position \<lparr>x = 2, y = 3\<rparr> SOUTH = \<lparr>x = 2, y = 4\<rparr> \<and>
   get_new_position \<lparr>x = 2, y = 3\<rparr> EAST = \<lparr>x = 1, y = 3\<rparr> \<and>
   get_new_position \<lparr>x = 2, y = 3\<rparr> WEST = \<lparr>x = 3, y = 3\<rparr> \<and>
   get_new_position \<lparr>x = 0, y = 0\<rparr> NORTH = \<lparr>x = 0, y = - 1\<rparr> \<and>
   get_new_position \<lparr>x = 0, y = 0\<rparr> EAST = \<lparr>x = - 1, y = 0\<rparr> \<and>
   get_new_position \<lparr>x = 2, y = 3\<rparr> (UNRECOGNIZED 7) = \<lparr>x = 2, y = 3\<rparr>"
proof -
  have r: "INT_MIN \<le> 2 \<and> 2 \<le> INT_MAX" "INT_MIN \<le> 3 \<and> 3 \<le> INT_MAX"
    "INT_MIN \<le> 0 \<and> 0 \<le> INT_MAX"
    by (simp_all add: INT_MIN_def INT_MAX_def)
  have s: "INT_MIN < 3" "3 < INT_MAX" "INT_MIN < 2" "2 < INT_MAX" "INT_MIN < 0"
    by (simp_all add: INT_MIN_def INT_MAX_def)
  show ?thesis
    using r s
      get_new_position_deltas [OF r(1) r(2), of "\<lparr>x = 2, y = 3\<rparr>" 7]
      get_new_position_deltas [OF r(3) r(3), of "\<lparr>x = 2, y = 3\<rparr>" 7]
    by simp
qed

subsection \<open>is_occupied and is_traversable\<close>

text \<open>
  Claim C9. For every pool and position: \<open>is_occupied\<close> holds exactly when the position is in
  bounds and its grid cell holds an id, so a position out of bounds is unoccupied;
  \<open>is_traversable\<close> returns true exactly when the position is in bounds, unoccupied, and the
  tile read at it is traversable. When the position is out of bounds or occupied the result
  is false whatever the tile map is, even for the empty map, every read of which would be
  outside the array: the tile map is read only after the first two tests have passed.
\<close>

theorem is_occupied_is_traversable_spec:
  "(is_occupied c d pos \<longleftrightarrow> is_valid_position c pos \<and> (\<exists>e. grid_at (grid d) pos = Some e)) \<and>
   (\<not> is_valid_position c pos \<longrightarrow> \<not> is_occupied c d pos) \<and>
   (is_traversable c d tmap pos = Inr True \<longleftrightarrow>
      is_valid_position c pos \<and> \<not> is_occupied c d pos \<and>
      (\<exists>tile. tile_at tmap pos = Inr tile \<and> traversable tile)) \<and>
   (tile_map_covers c tmap \<longrightarrow>
      is_traversable c d tmap pos =
        Inr (is_valid_position c pos \<and> \<not> is_occupied c d pos \<and> traversable (grid_at tmap pos))) \<and>
   (\<not> (is_valid_position c pos \<and> \<not> is_occupied c d pos) \<longrightarrow>
      is_traversable c d [] pos = Inr False \<and> is_traversable c d tmap pos = Inr False)"
  by (auto simp: is_occupied_def is_traversable_def tile_at_def valid_in_tile_map
      split: sum.splits)

text \<open>In \<open>example_two\<close>: (5,5) is free and traversable, (2,3) is occupied, (10,0) is out of
  bounds.\<close>

theorem is_occupied_is_traversable_spec_witness:
  "tile_map_covers example_constants example_tiles \<and>
   is_traversable example_constants example_two example_tiles \<lparr>x = 5, y = 5\<rparr> = Inr True \<and>
   is_occupied example_constants example_two \<lparr>x = 2, y = 3\<rparr> \<and>
   is_traversable example_constants example_two [] \<lparr>x = 2, y = 3\<rparr> = Inr False \<and>
   \<not> is_valid_position example_constants \<lparr>x = 10, y = 0\<rparr> \<and>
   \<not> is_occupied example_constants example_two \<lparr>x = 10, y = 0\<rparr> \<and>
   is_traversable example_constants example_two [] \<lparr>x = 10, y = 0\<rparr> = Inr False"
proof -
  have cov: "tile_map_covers example_constants example_tiles"
    by code_simp
  have free: "is_valid_position example_constants \<lparr>x = 5, y = 5\<rparr> \<and>
      \<not> is_occupied example_constants example_two \<lparr>x = 5, y = 5\<rparr> \<and>
      traversable (grid_at example_tiles \<lparr>x = 5, y = 5\<rparr>)"
    by code_simp
  have occ: "is_valid_position example_constants \<lparr>x = 2, y = 3\<rparr> \<and>
      grid_at (grid example_two) \<lparr>x = 2, y = 3\<rparr> = Some 4"
    by code_simp
  have out: "\<not> is_valid_position example_constants \<lparr>x = 10, y = 0\<rparr>"
    by code_simp
  show ?thesis
    using cov free occ out
      is_occupied_is_traversable_spec
        [of example_constants example_two "\<lparr>x = 5, y = 5\<rparr>" example_tiles]
      is_occupied_is_traversable_spec
        [of example_constants example_two "\<lparr>x = 2, y = 3\<rparr>" example_tiles]
      is_occupied_is_traversable_spec
        [of example_constants example_two "\<lparr>x = 10, y = 0\<rparr>" example_tiles]
    by simp
qed

subsection \<open>move_entity on failure\<close>

text \<open>
  Claim C5. When \<open>move_entity\<close> is called with an id whose position can be read (every live
  id of a pool) and the destination computed from it is not traversable, it returns false
  and the pool after the call is the pool before it: the position of the id, the grid cell
  it occupies and both counts are as they were.
\<close>

theorem move_entity_blocked_unchanged:
  assumes "in_range entity_idx (positions d)"
    and "is_traversable c d tmap (get_new_position (positions d ! nat entity_idx) dir) = Inr False"
  shows "move_entity c d tmap entity_idx dir = Inr (False, d)"
  using assms by (simp add: move_entity_def Let_def)

text \<open>In \<open>example_two\<close> the cell north of entity 4 holds entity 3.\<close>

theorem move_entity_blocked_unchanged_witness:
  "in_range 4 (positions example_two) \<and>
   is_traversable example_constants example_two example_tiles
     (get_new_position (positions example_two ! nat 4) NORTH) = Inr False \<and>
   move_entity example_constants example_two example_tiles 4 NORTH = Inr (False, example_two)"
proof -
  have a: "in_range 4 (positions example_two)"
    by code_simp
  have b: "is_traversable example_constants example_two example_tiles
     (get_new_position (positions example_two ! nat 4) NORTH) = Inr False"
    by code_simp
  show ?thesis
    using a b move_entity_blocked_unchanged [OF a b] by simp
qed

text \<open>
  Claim C10. When the grid cell at the position of an id holds that id (grid/position
  consistency for a live id) and \<open>get_new_position\<close> maps the position to itself, as it does
  for every unrecognized direction value, \<open>move_entity\<close> returns false and changes nothing:
  the entity's own cell counts as occupied.
\<close>

theorem move_entity_onto_own_cell:
  assumes "in_range entity_idx (positions d)"
    and "grid_at (grid d) (positions d ! nat entity_idx) = Some entity_idx"
  shows "(get_new_position (positions d ! nat entity_idx) dir = positions d ! nat entity_idx \<longrightarrow>
            move_entity c d tmap entity_idx dir = Inr (False, d)) \<and>
         move_entity c d tmap entity_idx (UNRECOGNIZED v) = Inr (False, d)"
  using assms by (simp add: move_entity_def Let_def is_traversable_def is_occupied_def)

theorem move_entity_onto_own_cell_witness:
  "in_range 3 (positions example_two) \<and>
   grid_at (grid example_two) (positions example_two ! nat 3) = Some 3 \<and>
   get_new_position (positions example_two ! nat 3) (UNRECOGNIZED 7) = positions example_two ! nat 3 \<and>
   move_entity example_constants example_two example_tiles 3 (UNRECOGNIZED 7) = Inr (False, example_two)"
proof -
  have a: "in_range 3 (positions example_two)"
    by code_simp
  have b: "grid_at (grid example_two) (positions example_two ! nat 3) = Some 3"
    by code_simp
  show ?thesis
    using a b
      move_entity_onto_own_cell [OF a b, of "UNRECOGNIZED 7" example_constants example_tiles 7]
    by simp
qed

subsection \<open>kill_entity on an id that is not alive\<close>

lemma kill_entity_loop_no_match:
  "0 \<le> i \<Longrightarrow> alive_count d \<le> int (length (alive_indices d)) \<Longrightarrow>
   \<forall>j. i \<le> j \<and> j < alive_count d \<longrightarrow> alive_indices d ! nat j \<noteq> entity_idx \<Longrightarrow>
   kill_entity_loop d entity_idx i = Inr d"
proof (induction d entity_idx i rule: kill_entity_loop.induct)
  case (1 d entity_idx i)
  show ?case
  proof (cases "i < alive_count d")
    case True
    have r: "in_range i (alive_indices d)"
      using True "1.prems" by (simp add: in_range_def)
    have ne: "alive_indices d ! nat i \<noteq> entity_idx"
      using True "1.prems" by simp
    have "kill_entity_loop d entity_idx i = kill_entity_loop d entity_idx (i + 1)"
      using True r ne by (subst kill_entity_loop.simps) simp
    also have "\<dots> = Inr d"
      using "1.IH"(2) [OF True _ ne] r "1.prems" by simp
    finally show ?thesis .
  next
    case False
    then show ?thesis by (subst kill_entity_loop.simps) simp
  qed
qed

lemma alive_ids_nth:
  "0 \<le> j \<Longrightarrow> j < alive_count d \<Longrightarrow> alive_count d \<le> int (length (alive_indices d)) \<Longrightarrow>
   alive_indices d ! nat j \<in> set (alive_ids d)"
  by (auto simp: alive_ids_def in_set_conv_nth intro!: exI [of _ "nat j"])

text \<open>
  Claim C7. When \<open>kill_entity\<close> is called with an id that does not occur among the first
  \<open>alive_count\<close> entries of \<open>alive_indices\<close> (the count being within the array), the call
  returns and the pool after it equals the pool before it; nothing is signalled.
\<close>

theorem kill_entity_not_alive_noop:
  assumes "alive_count d \<le> int (length (alive_indices d))"
    and "entity_idx \<notin> set (alive_ids d)"
  shows "kill_entity d entity_idx = Inr d"
  unfolding kill_entity_def
  using assms by (intro kill_entity_loop_no_match) (auto dest: alive_ids_nth)

text \<open>In \<open>example_two\<close> id 0 is free, though it fills the unused slots of \<open>alive_indices\<close>.\<close>

theorem kill_entity_not_alive_noop_witness:
  "alive_count example_two \<le> int (length (alive_indices example_two)) \<and>
   0 \<notin> set (alive_ids example_two) \<and>
   kill_entity example_two 0 = Inr example_two"
proof -
  have a: "alive_count example_two \<le> int (length (alive_indices example_two))"
    by code_simp
  have b: "0 \<notin> set (alive_ids example_two)"
    by code_simp
  show ?thesis
    using a b kill_entity_not_alive_noop [OF a b] by simp
qed

subsection \<open>initialize\<close>

lemma initialize_loop_result:
  "0 \<le> i \<Longrightarrow> i \<le> MAX_ENTITIES c \<Longrightarrow>
   int (length (dead_indices d)) = MAX_ENTITIES c \<Longrightarrow>
   int (length (positions d)) = MAX_ENTITIES c \<Longrightarrow>
   initialize_loop c i d =
     Inr (d\<lparr>dead_indices := take (nat i) (dead_indices d) @ [i..MAX_ENTITIES c - 1],
            positions := take (nat i) (positions d) @
                         replicate (nat (MAX_ENTITIES c - i)) \<lparr>x = 0, y = 0\<rparr>\<rparr>)"
proof (induction c i d rule: initialize_loop.induct)
  case (1 c i d)
  show ?case
  proof (cases "i < MAX_ENTITIES c")
    case True
    let ?d1 = "d\<lparr>dead_indices := (dead_indices d)[nat i := i],
                  positions := (positions d)[nat i := \<lparr>x = 0, y = 0\<rparr>]\<rparr>"
    have r: "in_range i (dead_indices d)" "in_range i (positions d)"
      using True "1.prems" by (simp_all add: in_range_def)
    have n: "nat (i + 1) = Suc (nat i)" "nat i < length (dead_indices d)"
      "nat i < length (positions d)"
      using True "1.prems" by auto
    have u: "[i..MAX_ENTITIES c - 1] = i # [i + 1..MAX_ENTITIES c - 1]"
      using True by (simp add: upto_rec1)
    have rp: "replicate (nat (MAX_ENTITIES c - i)) \<lparr>x = 0, y = 0\<rparr> =
        \<lparr>x = 0, y = 0\<rparr> # replicate (nat (MAX_ENTITIES c - (i + 1))) \<lparr>x = 0, y = 0\<rparr>"
      using True by (simp add: nat_diff_distrib' flip: replicate_Suc) 
    have "initialize_loop c i d = initialize_loop c (i + 1) ?d1"
      using True r by (subst initialize_loop.simps) simp
    also have "\<dots> = Inr (?d1\<lparr>dead_indices := take (nat (i + 1)) (dead_indices ?d1) @ [i + 1..MAX_ENTITIES c - 1],
            positions := take (nat (i + 1)) (positions ?d1) @
                         replicate (nat (MAX_ENTITIES c - (i + 1))) \<lparr>x = 0, y = 0\<rparr>\<rparr>)"
      using True r "1.prems" by (intro "1.IH") auto
    finally show ?thesis
      using n u rp by (simp add: take_Suc_conv_app_nth)
  next
    case False
    with "1.prems" have "i = MAX_ENTITIES c" by simp
    then show ?thesis
      using "1.prems" by (subst initialize_loop.simps) simp
  qed
qed

lemma map_clear_columns:
  "\<forall>column \<in> set g. int (length column) = h \<Longrightarrow>
   map (\<lambda>column. replicate (length column) v) g = replicate (length g) (replicate (nat h) v)"
  by (induction g) auto

lemma initialize_eq:
  assumes "pool_shape c d"
  shows "initialize c d =
     Inr (d\<lparr>dead_indices := [0..MAX_ENTITIES c - 1],
            positions := replicate (nat (MAX_ENTITIES c)) \<lparr>x = 0, y = 0\<rparr>,
            grid := replicate (nat (GRID_WIDTH c)) (replicate (nat (GRID_HEIGHT c)) None)\<rparr>)"
proof -
  have m: "0 \<le> MAX_ENTITIES c"
    using assms by (auto simp: pool_shape_def)
  have "length (grid d) = nat (GRID_WIDTH c)"
    using assms by (auto simp: pool_shape_def)
  then have g: "map (\<lambda>column. replicate (length column) None) (grid d) =
      replicate (nat (GRID_WIDTH c)) (replicate (nat (GRID_HEIGHT c)) None)"
    using assms map_clear_columns [of "grid d" "GRID_HEIGHT c" None]
    by (simp add: pool_shape_def)
  have l: "initialize_loop c 0 d =
      Inr (d\<lparr>dead_indices := [0..MAX_ENTITIES c - 1],
             positions := replicate (nat (MAX_ENTITIES c)) \<lparr>x = 0, y = 0\<rparr>\<rparr>)"
    using assms m initialize_loop_result [of 0 c d] by (simp add: pool_shape_def)
  show ?thesis
    unfolding initialize_def l by (simp add: g)
qed

text \<open>
  Claim C1, as the code has it. On a pool whose arrays have their declared sizes,
  \<open>initialize\<close> returns; afterwards \<open>dead_indices\<close> holds 0 .. \<open>MAX_ENTITIES\<close> - 1 in
  ascending order, every entry of \<open>positions\<close> is (0,0) and every grid cell is empty.
  \<open>alive_count\<close>, \<open>dead_count\<close> and \<open>alive_indices\<close> are what they were before the call: the
  counts are 0 and \<open>MAX_ENTITIES\<close> afterwards exactly when they were so before.
\<close>

theorem initialize_result:
  assumes "pool_shape c d"
  shows "\<exists>d'. initialize c d = Inr d' \<and>
           dead_indices d' = [0..MAX_ENTITIES c - 1] \<and>
           positions d' = replicate (nat (MAX_ENTITIES c)) \<lparr>x = 0, y = 0\<rparr> \<and>
           grid d' = replicate (nat (GRID_WIDTH c)) (replicate (nat (GRID_HEIGHT c)) None) \<and>
           alive_count d' = alive_count d \<and> dead_count d' = dead_count d \<and>
           alive_indices d' = alive_indices d"
  using initialize_eq [OF assms] by simp

theorem initialize_result_witness:
  "pool_shape example_constants example_fresh \<and>
   (\<exists>d'. initialize example_constants example_fresh = Inr d' \<and>
      dead_indices d' = [0, 1, 2, 3, 4] \<and>
      positions d' = replicate 5 \<lparr>x = 0, y = 0\<rparr> \<and>
      grid d' = replicate 10 (replicate 10 None) \<and>
      alive_count d' = 0 \<and> dead_count d' = 5)"
proof -
  have shape: "pool_shape example_constants example_fresh"
    by code_simp
  have v: "[0..MAX_ENTITIES example_constants - 1] = [0, 1, 2, 3, 4]"
    "nat (MAX_ENTITIES example_constants) = 5"
    "nat (GRID_WIDTH example_constants) = 10" "nat (GRID_HEIGHT example_constants) = 10"
    "alive_count example_fresh = 0" "dead_count example_fresh = 5"
    by code_simp+
  show ?thesis
    using shape initialize_result [OF shape] unfolding v by blast
qed

text \<open>
  The claim as stated, with \<open>alive_count = 0\<close> and \<open>dead_count = MAX_ENTITIES\<close> after every
  call, fails on a pool that has been used: \<open>initialize\<close> on \<open>example_two\<close> clears the arrays
  and the grid and leaves the counts at 2 and 3.
\<close>

theorem initialize_counts_counterexample:
  "initialize example_constants example_two = Inr example_two_reinitialized \<and>
   alive_count example_two_reinitialized \<noteq> 0 \<and>
   dead_count example_two_reinitialized \<noteq> MAX_ENTITIES example_constants"
  by code_simp

subsection \<open>create_entity\<close>

lemma partition_counts:
  "pool_shape c d \<Longrightarrow> partition_inv c d \<Longrightarrow>
   nat (alive_count d) \<le> length (alive_indices d) \<and> nat (dead_count d) \<le> length (dead_indices d)"
  by (auto simp: pool_shape_def partition_inv_def)

lemma partition_counts_int:
  "pool_shape c d \<Longrightarrow> partition_inv c d \<Longrightarrow>
   alive_count d \<le> int (length (alive_indices d)) \<and> dead_count d \<le> int (length (dead_indices d))"
  by (auto simp: pool_shape_def partition_inv_def)

lemma alive_id_in_range:
  "pool_shape c d \<Longrightarrow> partition_inv c d \<Longrightarrow> e \<in> set (alive_ids d) \<Longrightarrow>
   in_range e (positions d)"
  by (auto simp: pool_shape_def partition_inv_def in_range_def)

lemma dead_id_in_range:
  "pool_shape c d \<Longrightarrow> partition_inv c d \<Longrightarrow> e \<in> set (dead_ids d) \<Longrightarrow>
   in_range e (positions d)"
  by (auto simp: pool_shape_def partition_inv_def in_range_def)

lemma dead_ids_top:
  assumes "pool_shape c d" and "partition_inv c d" and "dead_count d \<noteq> 0"
  shows "dead_ids d = take (nat (dead_count d - 1)) (dead_indices d) @
           [dead_indices d ! nat (dead_count d - 1)]"
proof -
  have "nat (dead_count d) = Suc (nat (dead_count d - 1))"
    "nat (dead_count d - 1) < length (dead_indices d)"
    using assms by (auto simp: pool_shape_def partition_inv_def)
  then show ?thesis
    by (simp add: dead_ids_def take_Suc_conv_app_nth)
qed

lemma is_traversable_True:
  "is_traversable c d tmap pos = Inr True \<Longrightarrow>
   is_valid_position c pos \<and> grid_at (grid d) pos = None"
  by (auto simp: is_traversable_def is_occupied_def split: if_splits)

lemma is_traversable_covered:
  "tile_map_covers c tmap \<Longrightarrow>
   is_traversable c d tmap pos =
     Inr (is_valid_position c pos \<and> \<not> is_occupied c d pos \<and> traversable (grid_at tmap pos))"
  by (auto simp: is_traversable_def tile_at_def valid_in_tile_map)

lemma is_traversable_total:
  "tile_map_covers c tmap \<Longrightarrow> \<exists>t. is_traversable c d tmap pos = Inr t"
  by (auto simp: is_traversable_def tile_at_def valid_in_tile_map)

lemma create_entity_success:
  assumes shape: "pool_shape c d" and part: "partition_inv c d"
    and free: "dead_count d \<noteq> 0" and trav: "is_traversable c d tmap pos = Inr True"
  shows "create_entity c d tmap pos =
     Inr (Some (dead_indices d ! nat (dead_count d - 1)),
          d\<lparr>dead_count := dead_count d - 1,
            alive_indices := (alive_indices d)[nat (alive_count d) := dead_indices d ! nat (dead_count d - 1)],
            alive_count := alive_count d + 1,
            positions := (positions d)[nat (dead_indices d ! nat (dead_count d - 1)) := pos],
            grid := grid_set (grid d) pos (Some (dead_indices d ! nat (dead_count d - 1)))\<rparr>)"
proof -
  let ?e = "dead_indices d ! nat (dead_count d - 1)"
  have a: "in_range (dead_count d - 1) (dead_indices d)"
    using shape part free by (auto simp: pool_shape_def partition_inv_def in_range_def)
  have b: "in_range (alive_count d) (alive_indices d)"
    using shape part free by (auto simp: pool_shape_def partition_inv_def in_range_def)
  have "?e \<in> set (dead_ids d)"
    using dead_ids_top [OF shape part free] by simp
  then have e: "in_range ?e (positions d)"
    by (rule dead_id_in_range [OF shape part])
  have g: "in_grid (grid d) pos"
    using is_traversable_True [OF trav] valid_in_grid [OF shape] by simp
  show ?thesis
    using free trav a b e g by (simp add: create_entity_def Let_def)
qed

lemma create_entity_failure:
  "dead_count d = 0 \<or> is_traversable c d tmap pos = Inr False \<Longrightarrow>
   create_entity c d tmap pos = Inr (None, d)"
  by (auto simp: create_entity_def)

lemma create_entity_total:
  assumes "pool_shape c d" and "partition_inv c d" and "tile_map_covers c tmap"
  shows "\<exists>r d'. create_entity c d tmap pos = Inr (r, d')"
proof (cases "dead_count d = 0 \<or> is_traversable c d tmap pos = Inr False")
  case True
  then show ?thesis
    using create_entity_failure [OF True] by simp
next
  case False
  then have "dead_count d \<noteq> 0" "is_traversable c d tmap pos = Inr True"
    using is_traversable_total [OF assms(3), of d pos] by auto
  then show ?thesis
    using create_entity_success [OF assms(1,2)] by simp
qed

lemma create_entity_None:
  "create_entity c d tmap pos = Inr (None, d') \<Longrightarrow> d' = d"
  by (auto simp: create_entity_def Let_def split: if_splits sum.splits)

lemma create_entity_Some:
  assumes shape: "pool_shape c d" and part: "partition_inv c d"
    and res: "create_entity c d tmap pos = Inr (Some e, d')"
  shows "dead_count d \<noteq> 0" and "is_traversable c d tmap pos = Inr True"
    and "e = dead_indices d ! nat (dead_count d - 1)"
    and "d' = d\<lparr>dead_count := dead_count d - 1,
            alive_indices := (alive_indices d)[nat (alive_count d) := e],
            alive_count := alive_count d + 1,
            positions := (positions d)[nat e := pos],
            grid := grid_set (grid d) pos (Some e)\<rparr>"
proof -
  show free: "dead_count d \<noteq> 0"
    using res by (auto simp: create_entity_def)
  show trav: "is_traversable c d tmap pos = Inr True"
    using res free by (auto simp: create_entity_def split: sum.splits if_splits)
  show "e = dead_indices d ! nat (dead_count d - 1)"
    and "d' = d\<lparr>dead_count := dead_count d - 1,
            alive_indices := (alive_indices d)[nat (alive_count d) := e],
            alive_count := alive_count d + 1,
            positions := (positions d)[nat e := pos],
            grid := grid_set (grid d) pos (Some e)\<rparr>"
    using res create_entity_success [OF shape part free trav] by auto
qed

lemma create_entity_ids:
  assumes shape: "pool_shape c d" and part: "partition_inv c d"
    and res: "create_entity c d tmap pos = Inr (Some e, d')"
  shows "alive_ids d' = alive_ids d @ [e]" and "dead_ids d = dead_ids d' @ [e]"
proof -
  note s = create_entity_Some [OF assms]
  have n: "nat (alive_count d + 1) = Suc (nat (alive_count d))"
    "nat (alive_count d) < length (alive_indices d)"
    using shape part s(1) by (auto simp: pool_shape_def partition_inv_def)
  show "alive_ids d' = alive_ids d @ [e]"
    using n by (simp add: s(4) alive_ids_def take_Suc_conv_app_nth)
  show "dead_ids d = dead_ids d' @ [e]"
    using dead_ids_top [OF shape part s(1)] by (simp add: s(4) s(3) dead_ids_def)
qed

lemma create_entity_shape:
  assumes "pool_shape c d" and "partition_inv c d"
    and "create_entity c d tmap pos = Inr (r, d')"
  shows "pool_shape c d'"
proof (cases r)
  case None
  then show ?thesis using assms create_entity_None by blast
next
  case (Some e)
  show ?thesis
    using assms(1) grid_set_shape [of "grid d" "GRID_HEIGHT c" pos "Some e"]
    unfolding create_entity_Some(4) [OF assms(1,2) assms(3) [unfolded Some]]
    by (simp add: pool_shape_def)
qed

lemma create_entity_partition:
  assumes "pool_shape c d" and "partition_inv c d"
    and "create_entity c d tmap pos = Inr (r, d')"
  shows "partition_inv c d'"
proof (cases r)
  case None
  then show ?thesis using assms create_entity_None by blast
next
  case (Some e)
  note res = assms(3) [unfolded Some]
  note s = create_entity_Some [OF assms(1,2) res]
  note ids = create_entity_ids [OF assms(1,2) res]
  have cnt: "alive_count d' = alive_count d + 1" "dead_count d' = dead_count d - 1"
    by (simp_all add: s(4))
  show ?thesis
    using assms(2) s(1) unfolding partition_inv_def cnt ids(1) ids(2) by auto
qed

lemma create_entity_effect:
  assumes res: "create_entity c d tmap pos = Inr (Some e, d')"
  shows "last (dead_ids d) = e" and "dead_ids d' = butlast (dead_ids d)"
    and "alive_ids d' = alive_ids d @ [e]"
    and "positions d' ! nat e = pos"
    and "grid_at (grid d') pos = Some e"
    and "in_grid (grid d) q \<Longrightarrow> q \<noteq> pos \<Longrightarrow> grid_at (grid d') q = grid_at (grid d) q"
proof -
  have checks: "in_range (dead_count d - 1) (dead_indices d)"
    "in_range (alive_count d) (alive_indices d)"
    "in_range e (positions d)" "in_grid (grid d) pos"
    and e: "e = dead_indices d ! nat (dead_count d - 1)"
    and d': "d' = d\<lparr>dead_count := dead_count d - 1,
                alive_indices := (alive_indices d)[nat (alive_count d) := e],
                alive_count := alive_count d + 1,
                positions := (positions d)[nat e := pos],
                grid := grid_set (grid d) pos (Some e)\<rparr>"
    using res by (auto simp: create_entity_def Let_def split: if_splits sum.splits)
  have n: "nat (dead_count d) = Suc (nat (dead_count d - 1))"
    "nat (dead_count d - 1) < length (dead_indices d)"
    "nat (alive_count d + 1) = Suc (nat (alive_count d))"
    "nat (alive_count d) < length (alive_indices d)"
    "nat e < length (positions d)"
    using checks by (auto simp: in_range_def)
  have top: "dead_ids d = take (nat (dead_count d - 1)) (dead_indices d) @ [e]"
    using n(1,2) by (simp add: dead_ids_def take_Suc_conv_app_nth e)
  show "last (dead_ids d) = e"
    using top by simp
  show "dead_ids d' = butlast (dead_ids d)"
    unfolding top by (simp add: d' dead_ids_def)
  show "alive_ids d' = alive_ids d @ [e]"
    using n(3,4) by (simp add: d' alive_ids_def take_Suc_conv_app_nth)
  show "positions d' ! nat e = pos"
    using n(5) by (simp add: d')
  show "grid_at (grid d') pos = Some e"
    using grid_at_grid_set [OF checks(4) checks(4)] by (simp add: d')
  show "grid_at (grid d') q = grid_at (grid d) q" if "in_grid (grid d) q" "q \<noteq> pos"
    using grid_at_grid_set [OF checks(4) that(1)] that(2) by (auto simp: d')
qed

text \<open>
  Claim C4. Whenever \<open>create_entity\<close> returns (every array access in range), it returns
  empty exactly when \<open>dead_count\<close> is 0 or the position is not traversable; when it returns
  empty the pool is the one before the call; when it returns an id, the id is the top entry
  of the free stack and the pool differs from the one before the call by exactly the four
  mutations. Each of the four is applied: the free ids lose their last entry, which is the
  returned id; the live ids gain it at the end; \<open>positions\<close> holds the position at the id;
  the grid cell at the position holds the id, and every other cell is as before. On a pool
  whose arrays have their declared sizes and which satisfies the partition invariant, with
  a tile map that covers the grid, the call does return, and the position is not
  traversable exactly when it is out of bounds, occupied, or on a tile that is not
  traversable.
\<close>

theorem create_entity_atomic:
  "(create_entity c d tmap pos = Inr (r, d') \<longrightarrow>
      (r = None \<longleftrightarrow> dead_count d = 0 \<or> is_traversable c d tmap pos = Inr False) \<and>
      (r = None \<longrightarrow> d' = d) \<and>
      (r \<noteq> None \<longrightarrow>
         r = Some (dead_indices d ! nat (dead_count d - 1)) \<and>
         d' = d\<lparr>dead_count := dead_count d - 1,
                alive_indices := (alive_indices d)
                  [nat (alive_count d) := dead_indices d ! nat (dead_count d - 1)],
                alive_count := alive_count d + 1,
                positions := (positions d)[nat (dead_indices d ! nat (dead_count d - 1)) := pos],
                grid := grid_set (grid d) pos (Some (dead_indices d ! nat (dead_count d - 1)))\<rparr>) \<and>
      (\<forall>e. r = Some e \<longrightarrow>
         last (dead_ids d) = e \<and> dead_ids d' = butlast (dead_ids d) \<and>
         dead_count d' = dead_count d - 1 \<and>
         alive_ids d' = alive_ids d @ [e] \<and> alive_count d' = alive_count d + 1 \<and>
         positions d' ! nat e = pos \<and>
         grid_at (grid d') pos = Some e \<and>
         (\<forall>q. in_grid (grid d) q \<and> q \<noteq> pos \<longrightarrow> grid_at (grid d') q = grid_at (grid d) q))) \<and>
   (pool_shape c d \<and> partition_inv c d \<and> tile_map_covers c tmap \<longrightarrow>
      (\<exists>r d'. create_entity c d tmap pos = Inr (r, d')) \<and>
      (is_traversable c d tmap pos = Inr False \<longleftrightarrow>
         \<not> is_valid_position c pos \<or> is_occupied c d pos \<or> \<not> traversable (grid_at tmap pos)))"
proof (intro conjI impI allI)
  assume res: "create_entity c d tmap pos = Inr (r, d')"
  show "r = None \<longleftrightarrow> dead_count d = 0 \<or> is_traversable c d tmap pos = Inr False"
    using res by (auto simp: create_entity_def Let_def split: if_splits sum.splits)
  show "d' = d" if "r = None"
    using res that create_entity_None by blast
  show "r = Some (dead_indices d ! nat (dead_count d - 1))" if "r \<noteq> None"
    using res that by (auto simp: create_entity_def Let_def split: if_splits sum.splits)
  show "d' = d\<lparr>dead_count := dead_count d - 1,
                alive_indices := (alive_indices d)
                  [nat (alive_count d) := dead_indices d ! nat (dead_count d - 1)],
                alive_count := alive_count d + 1,
                positions := (positions d)[nat (dead_indices d ! nat (dead_count d - 1)) := pos],
                grid := grid_set (grid d) pos (Some (dead_indices d ! nat (dead_count d - 1)))\<rparr>"
    if "r \<noteq> None"
    using res that by (auto simp: create_entity_def Let_def split: if_splits sum.splits)
  fix e assume "r = Some e"
  then have some: "create_entity c d tmap pos = Inr (Some e, d')"
    using res by simp
  show "last (dead_ids d) = e" "dead_ids d' = butlast (dead_ids d)"
    "alive_ids d' = alive_ids d @ [e]" "positions d' ! nat e = pos"
    "grid_at (grid d') pos = Some e"
    using create_entity_effect(1-5) [OF some] by simp_all
  show "dead_count d' = dead_count d - 1" "alive_count d' = alive_count d + 1"
    using some by (auto simp: create_entity_def Let_def split: if_splits sum.splits)
  show "grid_at (grid d') q = grid_at (grid d) q" if "in_grid (grid d) q \<and> q \<noteq> pos" for q
    using create_entity_effect(6) [OF some] that by simp
next
  assume inv: "pool_shape c d \<and> partition_inv c d \<and> tile_map_covers c tmap"
  show "\<exists>r d'. create_entity c d tmap pos = Inr (r, d')"
    using inv create_entity_total by blast
  show "is_traversable c d tmap pos = Inr False \<longleftrightarrow>
         \<not> is_valid_position c pos \<or> is_occupied c d pos \<or> \<not> traversable (grid_at tmap pos)"
    using inv is_traversable_covered [of c tmap d pos] by auto
qed

text \<open>On \<open>example_two\<close>, whose free ids are [0, 1, 2] and whose cell (5,5) is empty:
  creation at (5,5) returns id 2 and gives \<open>example_three\<close>, where the free ids are [0, 1],
  the live ids [4, 3, 2], the position of id 2 is (5,5) and the cell (5,5) holds id 2.
  Creation at the occupied cell (2,3) returns empty and changes nothing.\<close>

theorem create_entity_atomic_witness:
  "pool_shape example_constants example_two \<and> partition_inv example_constants example_two \<and>
   tile_map_covers example_constants example_tiles \<and>
   grid_at (grid example_two) \<lparr>x = 5, y = 5\<rparr> = None \<and>
   create_entity example_constants example_two example_tiles \<lparr>x = 5, y = 5\<rparr> = Inr (Some 2, example_three) \<and>
   dead_count example_two \<noteq> 0 \<and>
   is_traversable example_constants example_two example_tiles \<lparr>x = 5, y = 5\<rparr> \<noteq> Inr False \<and>
   dead_ids example_two = [0, 1, 2] \<and> dead_ids example_three = [0, 1] \<and>
   alive_ids example_two = [4, 3] \<and> alive_ids example_three = [4, 3, 2] \<and>
   positions example_three ! nat 2 = \<lparr>x = 5, y = 5\<rparr> \<and>
   grid_at (grid example_three) \<lparr>x = 5, y = 5\<rparr> = Some 2 \<and>
   grid_at (grid example_three) \<lparr>x = 2, y = 3\<rparr> = Some 4 \<and>
   create_entity example_constants example_two example_tiles \<lparr>x = 2, y = 3\<rparr> = Inr (None, example_two) \<and>
   is_occupied example_constants example_two \<lparr>x = 2, y = 3\<rparr> \<and>
   is_traversable example_constants example_two example_tiles \<lparr>x = 2, y = 3\<rparr> = Inr False"
proof -
  have inv: "pool_shape example_constants example_two \<and>
      partition_inv example_constants example_two \<and>
      tile_map_covers example_constants example_tiles"
    by code_simp
  have free: "create_entity example_constants example_two example_tiles \<lparr>x = 5, y = 5\<rparr> =
      Inr (Some 2, example_three)"
    by code_simp
  have occ: "create_entity example_constants example_two example_tiles \<lparr>x = 2, y = 3\<rparr> =
      Inr (None, example_two)"
    "is_occupied example_constants example_two \<lparr>x = 2, y = 3\<rparr>"
    by code_simp+
  have before: "grid_at (grid example_two) \<lparr>x = 5, y = 5\<rparr> = None"
    "dead_ids example_two = [0, 1, 2]" "alive_ids example_two = [4, 3]"
    "grid_at (grid example_two) \<lparr>x = 2, y = 3\<rparr> = Some 4"
    "in_grid (grid example_two) \<lparr>x = 2, y = 3\<rparr>"
    by code_simp+
  have ne: "\<lparr>x = 2, y = 3\<rparr> \<noteq> \<lparr>x = 5, y = (5::int)\<rparr>"
    by simp
  show ?thesis
    using inv free occ before ne
      create_entity_atomic [of example_constants example_two example_tiles "\<lparr>x = 5, y = 5\<rparr>"
        "Some 2" example_three]
      create_entity_atomic [of example_constants example_two example_tiles "\<lparr>x = 2, y = 3\<rparr>"
        None example_two]
    by auto
qed

subsection \<open>kill_entity on a live id\<close>

lemma swap_remove:
  assumes d: "distinct (take n xs)" and k: "k < n" and n: "n \<le> length xs"
  shows "distinct (take (n - 1) (xs[k := xs ! (n - 1)]))"
    and "set (take (n - 1) (xs[k := xs ! (n - 1)])) = set (take n xs) - {xs ! k}"
proof -
  let ?B = "take (n - 1) xs" and ?l = "xs ! (n - 1)"
  have split: "take n xs = ?B @ [?l]"
    using k n take_Suc_conv_app_nth [of "n - 1" xs] by simp
  have dB: "distinct ?B" and lB: "?l \<notin> set ?B"
    using d unfolding split by simp_all
  have upd: "take (n - 1) (xs[k := ?l]) = ?B[k := ?l]"
    by (simp add: take_update_swap)
  have lenB: "length ?B = n - 1"
    using n by simp
  show "distinct (take (n - 1) (xs[k := xs ! (n - 1)]))"
    unfolding upd using dB lB by (simp add: distinct_list_update)
  show "set (take (n - 1) (xs[k := xs ! (n - 1)])) = set (take n xs) - {xs ! k}"
  proof (cases "k = n - 1")
    case True
    then have "?B[k := ?l] = ?B"
      using lenB by (simp add: list_update_beyond)
    then show ?thesis
      unfolding upd split using True lB by auto
  next
    case False
    then have kB: "k < length ?B"
      using k lenB by simp
    then have xk: "xs ! k = ?B ! k"
      by simp
    have "?B ! k \<in> set ?B"
      using kB by (rule nth_mem)
    then show ?thesis
      unfolding upd split xk using set_update_distinct [OF dB kB, of ?l] lB by auto
  qed
qed

lemma kill_entity_body_Inr:
  "kill_entity_body d e i = Inr d' \<Longrightarrow>
   d' = d\<lparr>grid := grid_set (grid d) (positions d ! nat e) None,
          alive_indices := (alive_indices d)[nat i := alive_indices d ! nat (alive_count d - 1)],
          alive_count := alive_count d - 1,
          dead_indices := (dead_indices d)[nat (dead_count d) := e],
          dead_count := dead_count d + 1\<rparr>"
  by (auto simp: kill_entity_body_def Let_def split: if_splits)

lemma kill_entity_body_total:
  assumes shape: "pool_shape c d" and part: "partition_inv c d"
    and i: "0 \<le> i" "i < alive_count d" and e: "alive_indices d ! nat i = e"
    and g: "in_grid (grid d) (positions d ! nat e)"
  shows "\<exists>d'. kill_entity_body d e i = Inr d'"
proof -
  have "e \<in> set (alive_ids d)"
    using alive_ids_nth [of i d] i shape part e by (auto simp: pool_shape_def partition_inv_def)
  then have a: "in_range e (positions d)"
    by (rule alive_id_in_range [OF shape part])
  have b: "in_range i (alive_indices d)" "in_range (alive_count d - 1) (alive_indices d)"
    "in_range (dead_count d) (dead_indices d)"
    using shape part i by (auto simp: pool_shape_def partition_inv_def in_range_def)
  show ?thesis
    using a b g by (simp add: kill_entity_body_def Let_def)
qed

lemma alive_prefix_distinct_nth:
  assumes shape: "pool_shape c d" and part: "partition_inv c d"
    and j: "0 \<le> j" "j < alive_count d" and k: "0 \<le> k" "k < alive_count d"
    and eq: "alive_indices d ! nat j = alive_indices d ! nat k"
  shows "j = k"
proof -
  have d: "distinct (alive_ids d)"
    using part by (simp add: partition_inv_def)
  have len: "length (alive_ids d) = nat (alive_count d)"
    using partition_counts [OF shape part] by (simp add: alive_ids_def)
  have "alive_ids d ! nat j = alive_ids d ! nat k"
    using eq j k by (simp add: alive_ids_def)
  then have "nat j = nat k"
    using d len j k by (simp add: nth_eq_iff_index_eq)
  then show ?thesis using j k by simp
qed

lemma kill_entity_body_ids:
  assumes shape: "pool_shape c d" and part: "partition_inv c d"
    and i: "0 \<le> i" "i < alive_count d" and e: "alive_indices d ! nat i = e"
    and res: "kill_entity_body d e i = Inr d'"
  shows "distinct (alive_ids d')" and "set (alive_ids d') = set (alive_ids d) - {e}"
    and "dead_ids d' = dead_ids d @ [e]"
proof -
  note d' = kill_entity_body_Inr [OF res]
  have cnt: "nat (alive_count d) \<le> length (alive_indices d)" "nat i < nat (alive_count d)"
    "nat (alive_count d - 1) = nat (alive_count d) - 1"
    using partition_counts [OF shape part] i by auto
  have dist: "distinct (take (nat (alive_count d)) (alive_indices d))"
    using part by (simp add: partition_inv_def alive_ids_def)
  show "distinct (alive_ids d')"
    using swap_remove(1) [OF dist cnt(2) cnt(1)] by (simp add: d' alive_ids_def cnt(3))
  show "set (alive_ids d') = set (alive_ids d) - {e}"
    using swap_remove(2) [OF dist cnt(2) cnt(1)] e by (simp add: d' alive_ids_def cnt(3))
  have n: "nat (dead_count d + 1) = Suc (nat (dead_count d))"
    "nat (dead_count d) < length (dead_indices d)"
    using shape part i by (auto simp: pool_shape_def partition_inv_def)
  show "dead_ids d' = dead_ids d @ [e]"
    using n by (simp add: d' dead_ids_def take_Suc_conv_app_nth)
qed

lemma kill_entity_body_shape:
  assumes "pool_shape c d" and "kill_entity_body d e i = Inr d'"
  shows "pool_shape c d'"
  using assms(1) grid_set_shape [of "grid d" "GRID_HEIGHT c" "positions d ! nat e" None]
  unfolding kill_entity_body_Inr [OF assms(2)]
  by (simp add: pool_shape_def)

lemma kill_entity_body_partition:
  assumes shape: "pool_shape c d" and part: "partition_inv c d"
    and i: "0 \<le> i" "i < alive_count d" and e: "alive_indices d ! nat i = e"
    and res: "kill_entity_body d e i = Inr d'"
  shows "partition_inv c d'"
proof -
  note ids = kill_entity_body_ids [OF assms]
  have cnt: "alive_count d' = alive_count d - 1" "dead_count d' = dead_count d + 1"
    by (simp_all add: kill_entity_body_Inr [OF res])
  have "e \<in> set (alive_ids d)"
    using alive_ids_nth [of i d] i shape part e by (auto simp: pool_shape_def partition_inv_def)
  then show ?thesis
    using part i unfolding partition_inv_def cnt
    by (auto simp: ids)
qed

lemma kill_entity_loop_match:
  "pool_shape c d \<Longrightarrow> partition_inv c d \<Longrightarrow> 0 \<le> i \<Longrightarrow> i \<le> k \<Longrightarrow> k < alive_count d \<Longrightarrow>
   alive_indices d ! nat k = e \<Longrightarrow> kill_entity_loop d e i = kill_entity_body d e k"
proof (induction d e i rule: kill_entity_loop.induct)
  case (1 d e i)
  note shape = "1.prems"(1) and part = "1.prems"(2)
  have lt: "i < alive_count d"
    using "1.prems" by simp
  have r: "in_range i (alive_indices d)"
    using lt "1.prems"(3) partition_counts_int [OF shape part] by (simp add: in_range_def)
  show ?case
  proof (cases "alive_indices d ! nat i = e")
    case True
    then have ik: "i = k"
      using alive_prefix_distinct_nth [OF shape part "1.prems"(3) lt _ "1.prems"(5)] "1.prems"
      by simp
    have unf: "kill_entity_loop d e k =
        (case kill_entity_body d e k of Inl err \<Rightarrow> Inl err
         | Inr d' \<Rightarrow> kill_entity_loop d' e (k + 1))"
      using lt r True unfolding ik by (subst kill_entity_loop.simps) simp
    show ?thesis
    proof (cases "kill_entity_body d e k")
      case (Inl err)
      then show ?thesis using unf ik by simp
    next
      case (Inr d')
      note d' = kill_entity_body_Inr [OF Inr]
      have len: "alive_count d' \<le> int (length (alive_indices d'))"
        using partition_counts_int [OF shape part] lt by (simp add: d')
      have "\<forall>j. k + 1 \<le> j \<and> j < alive_count d' \<longrightarrow> alive_indices d' ! nat j \<noteq> e"
      proof (intro allI impI)
        fix j assume j: "k + 1 \<le> j \<and> j < alive_count d'"
        then have j2: "0 \<le> j" "j < alive_count d" "j \<noteq> k"
          using "1.prems"(3) ik by (simp_all add: d')
        have "alive_indices d' ! nat j = alive_indices d ! nat j"
          using j2 "1.prems"(3) ik by (simp add: d' nat_eq_iff)
        moreover have "alive_indices d ! nat j \<noteq> alive_indices d ! nat k"
          using alive_prefix_distinct_nth [OF shape part j2(1,2) _ "1.prems"(5)] j2(3)
            "1.prems"(3,4) by auto
        ultimately show "alive_indices d' ! nat j \<noteq> e"
          using "1.prems"(6) by simp
      qed
      then have "kill_entity_loop d' e (k + 1) = Inr d'"
        using len "1.prems"(3) ik by (intro kill_entity_loop_no_match) simp_all
      then show ?thesis
        using unf Inr ik by simp
    qed
  next
    case False
    then have ik: "i + 1 \<le> k"
      using "1.prems"(4,6) by (cases "i = k") auto
    have "kill_entity_loop d e i = kill_entity_loop d e (i + 1)"
      using lt r False by (subst kill_entity_loop.simps) simp
    also have "\<dots> = kill_entity_body d e k"
      using lt r False ik "1.prems" by (intro "1.IH"(2)) simp_all
    finally show ?thesis .
  qed
qed

lemma alive_ids_index:
  assumes "pool_shape c d" and "partition_inv c d" and "e \<in> set (alive_ids d)"
  shows "\<exists>k. 0 \<le> k \<and> k < alive_count d \<and> alive_indices d ! nat k = e"
proof -
  from assms(3) obtain n where n: "n < length (alive_ids d)" "alive_ids d ! n = e"
    by (auto simp: in_set_conv_nth)
  then have "0 \<le> int n \<and> int n < alive_count d \<and> alive_indices d ! nat (int n) = e"
    by (auto simp: alive_ids_def)
  then show ?thesis by blast
qed

lemma kill_entity_alive:
  assumes "pool_shape c d" and "partition_inv c d" and "e \<in> set (alive_ids d)"
  shows "\<exists>k. 0 \<le> k \<and> k < alive_count d \<and> alive_indices d ! nat k = e \<and>
           kill_entity d e = kill_entity_body d e k"
  using alive_ids_index [OF assms] kill_entity_loop_match [OF assms(1,2), of 0 _ e]
  unfolding kill_entity_def by fastforce

lemma kill_entity_absent:
  assumes "pool_shape c d" and "partition_inv c d" and "e \<notin> set (alive_ids d)"
  shows "kill_entity d e = Inr d"
  unfolding kill_entity_def
  using assms partition_counts_int [OF assms(1,2)]
  by (intro kill_entity_loop_no_match) (auto dest: alive_ids_nth)

lemma kill_entity_shape_partition:
  assumes shape: "pool_shape c d" and part: "partition_inv c d"
    and res: "kill_entity d e = Inr d'"
  shows "pool_shape c d' \<and> partition_inv c d'"
proof (cases "e \<in> set (alive_ids d)")
  case True
  from kill_entity_alive [OF shape part True] obtain k where
    k: "0 \<le> k" "k < alive_count d" "alive_indices d ! nat k = e"
    and body: "kill_entity_body d e k = Inr d'"
    using res by auto
  show ?thesis
    using kill_entity_body_shape [OF shape body]
      kill_entity_body_partition [OF shape part k body] by simp
next
  case False
  then show ?thesis
    using kill_entity_absent [OF shape part False] res shape part by simp
qed

lemma kill_entity_ids:
  assumes shape: "pool_shape c d" and part: "partition_inv c d"
    and alive: "e \<in> set (alive_ids d)" and res: "kill_entity d e = Inr d'"
  shows "set (alive_ids d') = set (alive_ids d) - {e}" and "dead_ids d' = dead_ids d @ [e]"
    and "positions d' = positions d"
    and "grid d' = grid_set (grid d) (positions d ! nat e) None"
proof -
  from kill_entity_alive [OF shape part alive] obtain k where
    k: "0 \<le> k" "k < alive_count d" "alive_indices d ! nat k = e"
    and body: "kill_entity_body d e k = Inr d'"
    using res by auto
  show "set (alive_ids d') = set (alive_ids d) - {e}" and "dead_ids d' = dead_ids d @ [e]"
    using kill_entity_body_ids [OF shape part k body] by simp_all
  show "positions d' = positions d"
    and "grid d' = grid_set (grid d) (positions d ! nat e) None"
    by (simp_all add: kill_entity_body_Inr [OF body])
qed

subsection \<open>move_entity on success\<close>

lemma move_entity_result:
  assumes "move_entity c d tmap e dir = Inr (b, d')"
  shows "in_range e (positions d)"
    and "\<not> b \<Longrightarrow> d' = d"
    and "b \<Longrightarrow> is_traversable c d tmap (get_new_position (positions d ! nat e) dir) = Inr True"
    and "b \<Longrightarrow> d' = d\<lparr>grid := grid_set (grid_set (grid d) (positions d ! nat e) None)
                               (get_new_position (positions d ! nat e) dir) (Some e),
                       positions := (positions d)[nat e := get_new_position (positions d ! nat e) dir]\<rparr>"
  using assms by (auto simp: move_entity_def Let_def split: if_splits sum.splits)

lemma move_entity_shape_partition:
  assumes shape: "pool_shape c d" and part: "partition_inv c d"
    and res: "move_entity c d tmap e dir = Inr (b, d')"
  shows "pool_shape c d' \<and> partition_inv c d'"
proof (cases b)
  case False
  then show ?thesis using move_entity_result(2) [OF res] shape part by simp
next
  case True
  note d' = move_entity_result(4) [OF res True]
  have "\<forall>column \<in> set (grid d'). int (length column) = GRID_HEIGHT c"
    unfolding d' using shape by (auto intro!: grid_set_shape simp: pool_shape_def)
  then have "pool_shape c d'"
    using shape by (simp add: pool_shape_def d')
  moreover have "alive_ids d' = alive_ids d" "dead_ids d' = dead_ids d"
    by (simp_all add: d' alive_ids_def dead_ids_def)
  then have "partition_inv c d'"
    using part by (simp add: partition_inv_def d')
  ultimately show ?thesis by simp
qed

subsection \<open>The partition invariant\<close>

lemma distinct_count_list:
  "distinct xs \<Longrightarrow> v \<in> set xs \<Longrightarrow> count_list xs v = 1"
  by (induction xs) auto

lemma grid_at_replicate:
  "0 \<le> px \<Longrightarrow> px < w \<Longrightarrow> 0 \<le> py \<Longrightarrow> py < h \<Longrightarrow>
   grid_at (replicate (nat w) (replicate (nat h) v)) \<lparr>x = px, y = py\<rparr> = v"
  by (simp add: grid_at_def)

lemma initialize_fresh_inv:
  assumes "fresh_pool c d0" and "initialize c d0 = Inr d"
  shows "pool_inv c d"
proof -
  have shape: "pool_shape c d0" and cnt: "alive_count d0 = 0" "dead_count d0 = MAX_ENTITIES c"
    using assms(1) by (simp_all add: fresh_pool_def)
  have m: "0 \<le> MAX_ENTITIES c" "0 \<le> GRID_WIDTH c"
    using shape by (auto simp: pool_shape_def)
  have d: "d = d0\<lparr>dead_indices := [0..MAX_ENTITIES c - 1],
            positions := replicate (nat (MAX_ENTITIES c)) \<lparr>x = 0, y = 0\<rparr>,
            grid := replicate (nat (GRID_WIDTH c)) (replicate (nat (GRID_HEIGHT c)) None)\<rparr>"
    using initialize_eq [OF shape] assms(2) by simp
  have "pool_shape c d"
    using shape m by (auto simp: d pool_shape_def)
  moreover have "alive_ids d = []" "dead_ids d = [0..MAX_ENTITIES c - 1]"
    using m by (simp_all add: d alive_ids_def dead_ids_def cnt)
  then have "partition_inv c d" "grid_consistent c d"
    using m by (auto simp: partition_inv_def grid_consistent_def d cnt grid_at_replicate)
  ultimately show ?thesis
    by (simp add: pool_inv_def)
qed

lemma reachable_shape_partition:
  "reachable c d \<Longrightarrow> pool_shape c d \<and> partition_inv c d"
proof (induction rule: reachable.induct)
  case (reach_initialize d0 d)
  then show ?case
    using initialize_fresh_inv by (auto simp: pool_inv_def)
next
  case (reach_create d tmap pos r d')
  then show ?case
    using create_entity_shape create_entity_partition by blast
next
  case (reach_kill d entity_idx d')
  then show ?case
    using kill_entity_shape_partition by blast
next
  case (reach_move d tmap entity_idx dir b d')
  then show ?case
    using move_entity_shape_partition by blast
qed

lemma example_run:
  "initialize example_constants example_fresh = Inr example_initial"
  "create_entity example_constants example_initial example_tiles \<lparr>x = 2, y = 3\<rparr> = Inr (Some 4, example_one)"
  "create_entity example_constants example_one example_tiles \<lparr>x = 2, y = 2\<rparr> = Inr (Some 3, example_two)"
  "create_entity example_constants example_two example_tiles \<lparr>x = 5, y = 5\<rparr> = Inr (Some 2, example_three)"
  "create_entity example_constants example_three example_tiles \<lparr>x = 0, y = 0\<rparr> = Inr (Some 1, example_four)"
  "create_entity example_constants example_four example_tiles \<lparr>x = 9, y = 9\<rparr> = Inr (Some 0, example_five)"
  "kill_entity example_five 2 = Inr example_killed"
  by code_simp+

text \<open>
  Claim C2, as the code has it. \<open>initialize\<close> does not write the counts, so the pools
  considered are those reached from \<open>initialize\<close> on a pool whose \<open>alive_count\<close> is 0 and
  \<open>dead_count\<close> is \<open>MAX_ENTITIES\<close>, by any sequence of \<open>create_entity\<close>, \<open>kill_entity\<close> and
  \<open>move_entity\<close> calls with any arguments that stay inside the arrays. In every such pool
  \<open>alive_count + dead_count = MAX_ENTITIES\<close>, and every id of \<open>[0, MAX_ENTITIES)\<close> occurs
  exactly once in the first \<open>alive_count\<close> entries of \<open>alive_indices\<close> followed by the first
  \<open>dead_count\<close> entries of \<open>dead_indices\<close>, which hold nothing else and no duplicate.
\<close>

theorem reachable_partition:
  assumes "reachable c d"
  shows "0 \<le> alive_count d \<and> 0 \<le> dead_count d \<and>
         alive_count d + dead_count d = MAX_ENTITIES c \<and>
         length (alive_ids d) = nat (alive_count d) \<and>
         length (dead_ids d) = nat (dead_count d) \<and>
         (\<forall>e. 0 \<le> e \<and> e < MAX_ENTITIES c \<longrightarrow> count_list (alive_ids d @ dead_ids d) e = 1) \<and>
         distinct (alive_ids d @ dead_ids d) \<and>
         set (alive_ids d @ dead_ids d) = {0..<MAX_ENTITIES c}"
proof -
  have shape: "pool_shape c d" and part: "partition_inv c d"
    using reachable_shape_partition [OF assms] by simp_all
  have len: "length (alive_ids d) = nat (alive_count d)" "length (dead_ids d) = nat (dead_count d)"
    using partition_counts [OF shape part] by (simp_all add: alive_ids_def dead_ids_def)
  have "\<forall>e. 0 \<le> e \<and> e < MAX_ENTITIES c \<longrightarrow> count_list (alive_ids d @ dead_ids d) e = 1"
    using part distinct_count_list [of "alive_ids d @ dead_ids d"]
    unfolding partition_inv_def by (metis atLeastLessThan_iff)
  then show ?thesis
    using part len unfolding partition_inv_def by blast
qed

theorem reachable_partition_witness:
  "reachable example_constants example_killed \<and>
   alive_ids example_killed = [4, 3, 0, 1] \<and> dead_ids example_killed = [2] \<and>
   alive_count example_killed + dead_count example_killed = MAX_ENTITIES example_constants \<and>
   distinct (alive_ids example_killed @ dead_ids example_killed) \<and>
   set (alive_ids example_killed @ dead_ids example_killed) = {0..<MAX_ENTITIES example_constants}"
proof -
  have "fresh_pool example_constants example_fresh"
    by code_simp
  then have "reachable example_constants example_initial"
    using example_run(1) by (rule reach_initialize)
  then have "reachable example_constants example_one"
    using example_run(2) by (rule reach_create)
  then have "reachable example_constants example_two"
    using example_run(3) by (rule reach_create)
  then have "reachable example_constants example_three"
    using example_run(4) by (rule reach_create)
  then have "reachable example_constants example_four"
    using example_run(5) by (rule reach_create)
  then have "reachable example_constants example_five"
    using example_run(6) by (rule reach_create)
  then have r: "reachable example_constants example_killed"
    using example_run(7) by (rule reach_kill)
  have ids: "alive_ids example_killed = [4, 3, 0, 1]" "dead_ids example_killed = [2]"
    by code_simp+
  show ?thesis
    using r ids reachable_partition [OF r] by simp
qed

text \<open>
  The claim as stated, for \<open>initialize\<close> followed by any calls, fails when \<open>initialize\<close> finds
  other counts. On a pool that has been used, the counts and \<open>alive_indices\<close> survive while
  \<open>dead_indices\<close> is refilled: after \<open>initialize\<close> on \<open>example_killed\<close> the live ids are
  [4, 3, 0, 1] and the free ids are [0], so id 0 occurs twice and id 2 not at all. On a
  pool whose members are all zero, the counts add up to 0 after \<open>initialize\<close>, not to 5.
\<close>

theorem reinitialize_partition_counterexample:
  "initialize example_constants example_killed = Inr example_killed_reinitialized \<and>
   count_list (alive_ids example_killed_reinitialized @ dead_ids example_killed_reinitialized) 0 = 2 \<and>
   count_list (alive_ids example_killed_reinitialized @ dead_ids example_killed_reinitialized) 2 = 0 \<and>
   initialize example_constants example_zeroed = Inr example_zeroed_initialized \<and>
   alive_count example_zeroed_initialized + dead_count example_zeroed_initialized
     \<noteq> MAX_ENTITIES example_constants"
  by code_simp

subsection \<open>Recycling of free ids\<close>

lemma grid_consistent_iff:
  "grid_consistent c d \<longleftrightarrow>
     (\<forall>e \<in> set (alive_ids d).
        in_range e (positions d) \<and> is_valid_position c (positions d ! nat e) \<and>
        grid_at (grid d) (positions d ! nat e) = Some e) \<and>
     (\<forall>p e. is_valid_position c p \<and> grid_at (grid d) p = Some e \<longrightarrow>
        e \<in> set (alive_ids d) \<and> in_range e (positions d) \<and> positions d ! nat e = p)"
  (is "?L \<longleftrightarrow> ?A \<and> ?B")
proof
  assume l: ?L
  have ?B
  proof (intro allI impI)
    fix p :: Position and e
    assume pe: "is_valid_position c p \<and> grid_at (grid d) p = Some e"
    have p: "\<lparr>x = x p, y = y p\<rparr> = p" by simp
    have "x p \<in> {0..<GRID_WIDTH c}" "y p \<in> {0..<GRID_HEIGHT c}"
      using pe by (simp_all add: is_valid_position_def)
    then have "case grid_at (grid d) \<lparr>x = x p, y = y p\<rparr> of None \<Rightarrow> True
        | Some e \<Rightarrow> e \<in> set (alive_ids d) \<and> in_range e (positions d) \<and>
                    positions d ! nat e = \<lparr>x = x p, y = y p\<rparr>"
      using l unfolding grid_consistent_def by blast
    then show "e \<in> set (alive_ids d) \<and> in_range e (positions d) \<and> positions d ! nat e = p"
      using pe unfolding p by simp
  qed
  then show "?A \<and> ?B"
    using l unfolding grid_consistent_def by blast
next
  assume r: "?A \<and> ?B"
  have "\<forall>px \<in> {0..<GRID_WIDTH c}. \<forall>py \<in> {0..<GRID_HEIGHT c}.
         case grid_at (grid d) \<lparr>x = px, y = py\<rparr> of
           None \<Rightarrow> True
         | Some e \<Rightarrow> e \<in> set (alive_ids d) \<and> in_range e (positions d) \<and>
                     positions d ! nat e = \<lparr>x = px, y = py\<rparr>"
  proof (intro ballI)
    fix px py assume "px \<in> {0..<GRID_WIDTH c}" "py \<in> {0..<GRID_HEIGHT c}"
    then have "is_valid_position c \<lparr>x = px, y = py\<rparr>"
      by (simp add: is_valid_position_def)
    then show "case grid_at (grid d) \<lparr>x = px, y = py\<rparr> of
           None \<Rightarrow> True
         | Some e \<Rightarrow> e \<in> set (alive_ids d) \<and> in_range e (positions d) \<and>
                     positions d ! nat e = \<lparr>x = px, y = py\<rparr>"
      using r by (auto split: option.splits)
  qed
  then show ?L
    using r unfolding grid_consistent_def by blast
qed

lemma grid_consistentI:
  assumes "\<And>a. a \<in> set (alive_ids d) \<Longrightarrow>
             in_range a (positions d) \<and> is_valid_position c (positions d ! nat a) \<and>
             grid_at (grid d) (positions d ! nat a) = Some a"
    and "\<And>p a. is_valid_position c p \<Longrightarrow> grid_at (grid d) p = Some a \<Longrightarrow>
             a \<in> set (alive_ids d) \<and> in_range a (positions d) \<and> positions d ! nat a = p"
  shows "grid_consistent c d"
  unfolding grid_consistent_iff using assms by blast

lemma grid_consistent_alive:
  "grid_consistent c d \<Longrightarrow> a \<in> set (alive_ids d) \<Longrightarrow>
   in_range a (positions d) \<and> is_valid_position c (positions d ! nat a) \<and>
   grid_at (grid d) (positions d ! nat a) = Some a"
  unfolding grid_consistent_iff by blast

lemma grid_consistent_cell:
  "grid_consistent c d \<Longrightarrow> is_valid_position c p \<Longrightarrow> grid_at (grid d) p = Some a \<Longrightarrow>
   a \<in> set (alive_ids d) \<and> in_range a (positions d) \<and> positions d ! nat a = p"
  unfolding grid_consistent_iff by blast

lemma in_range_nat:
  "in_range i xs \<Longrightarrow> nat i < length xs"
  by (auto simp: in_range_def)

lemma in_range_nat_eq:
  "in_range a xs \<Longrightarrow> in_range b xs \<Longrightarrow> (nat a = nat b) = (a = b)"
  by (auto simp: in_range_def)

lemma kill_entity_total:
  assumes inv: "pool_inv c d"
  shows "\<exists>d'. kill_entity d e = Inr d'"
proof (cases "e \<in> set (alive_ids d)")
  case False
  then show ?thesis
    using kill_entity_absent [of c d e] inv by (simp add: pool_inv_def)
next
  case True
  have shape: "pool_shape c d" and part: "partition_inv c d" and cons: "grid_consistent c d"
    using inv by (simp_all add: pool_inv_def)
  from kill_entity_alive [OF shape part True] obtain k where
    k: "0 \<le> k" "k < alive_count d" "alive_indices d ! nat k = e"
    and body: "kill_entity d e = kill_entity_body d e k"
    by auto
  have "in_grid (grid d) (positions d ! nat e)"
    using valid_in_grid [OF shape] grid_consistent_alive [OF cons True] by simp
  then show ?thesis
    using kill_entity_body_total [OF shape part k] body by simp
qed

text \<open>
  Claim C6. Free ids are recycled in LIFO order. On a pool satisfying the invariants, a
  successful \<open>create_entity\<close> returns the last of the free ids and removes it from them, and
  \<open>kill_entity\<close> on a live id returns and appends that id to the free ids; so every
  successful \<open>create_entity\<close> that follows the kill returns the killed id, and a creation at
  any traversable position does succeed. The scenario of the claim, with capacity 5, five
  creations and the kill of the third-created id, is the witness below.
\<close>

theorem free_ids_lifo:
  assumes "pool_inv c d"
  shows "(create_entity c d tmap pos = Inr (Some r, d1) \<longrightarrow>
            r = last (dead_ids d) \<and> dead_ids d1 = butlast (dead_ids d)) \<and>
         (e \<in> set (alive_ids d) \<longrightarrow>
            (\<exists>d2. kill_entity d e = Inr d2 \<and> dead_ids d2 = dead_ids d @ [e] \<and>
               (\<forall>tmap' pos' r' d3.
                  create_entity c d2 tmap' pos' = Inr (Some r', d3) \<longrightarrow>
                  r' = e \<and> dead_ids d3 = dead_ids d) \<and>
               (\<forall>tmap' pos'.
                  is_traversable c d2 tmap' pos' = Inr True \<longrightarrow>
                  (\<exists>d3. create_entity c d2 tmap' pos' = Inr (Some e, d3)))))"
proof (intro conjI impI)
  have shape: "pool_shape c d" and part: "partition_inv c d"
    using assms by (simp_all add: pool_inv_def)
  {
    assume res: "create_entity c d tmap pos = Inr (Some r, d1)"
    show "r = last (dead_ids d)" and "dead_ids d1 = butlast (dead_ids d)"
      using create_entity_ids(2) [OF shape part res] by simp_all
  }
  assume alive: "e \<in> set (alive_ids d)"
  obtain d2 where k: "kill_entity d e = Inr d2"
    using kill_entity_total [OF assms] by blast
  have push: "dead_ids d2 = dead_ids d @ [e]"
    using kill_entity_ids(2) [OF shape part alive k] .
  have "pool_shape c d2 \<and> partition_inv c d2"
    using kill_entity_shape_partition [OF shape part k] .
  then have inv2: "pool_shape c d2" "partition_inv c d2"
    by simp_all
  have pop: "r' = e \<and> dead_ids d3 = dead_ids d"
    if "create_entity c d2 tmap' pos' = Inr (Some r', d3)" for tmap' pos' r' d3
    using create_entity_ids(2) [OF inv2 that] push by simp
  have free: "dead_count d2 \<noteq> 0"
    using push by (auto simp: dead_ids_def)
  have top: "dead_indices d2 ! nat (dead_count d2 - 1) = e"
    using dead_ids_top [OF inv2 free] push by simp
  have again: "\<exists>d3. create_entity c d2 tmap' pos' = Inr (Some e, d3)"
    if "is_traversable c d2 tmap' pos' = Inr True" for tmap' pos'
    using create_entity_success [OF inv2 free that] top by simp
  show "\<exists>d2. kill_entity d e = Inr d2 \<and> dead_ids d2 = dead_ids d @ [e] \<and>
               (\<forall>tmap' pos' r' d3.
                  create_entity c d2 tmap' pos' = Inr (Some r', d3) \<longrightarrow>
                  r' = e \<and> dead_ids d3 = dead_ids d) \<and>
               (\<forall>tmap' pos'.
                  is_traversable c d2 tmap' pos' = Inr True \<longrightarrow>
                  (\<exists>d3. create_entity c d2 tmap' pos' = Inr (Some e, d3)))"
    using k push pop again by blast
qed

text \<open>Capacity 5: the five creations return 4, 3, 2, 1, 0; the third-created id 2 is killed;
  the next creation returns 2.\<close>

theorem free_ids_lifo_witness:
  "initialize example_constants example_fresh = Inr example_initial \<and>
   create_entity example_constants example_initial example_tiles \<lparr>x = 2, y = 3\<rparr> = Inr (Some 4, example_one) \<and>
   create_entity example_constants example_one example_tiles \<lparr>x = 2, y = 2\<rparr> = Inr (Some 3, example_two) \<and>
   create_entity example_constants example_two example_tiles \<lparr>x = 5, y = 5\<rparr> = Inr (Some 2, example_three) \<and>
   create_entity example_constants example_three example_tiles \<lparr>x = 0, y = 0\<rparr> = Inr (Some 1, example_four) \<and>
   create_entity example_constants example_four example_tiles \<lparr>x = 9, y = 9\<rparr> = Inr (Some 0, example_five) \<and>
   pool_inv example_constants example_five \<and>
   2 \<in> set (alive_ids example_five) \<and>
   kill_entity example_five 2 = Inr example_killed \<and>
   dead_ids example_killed = dead_ids example_five @ [2] \<and>
   (\<exists>d'. create_entity example_constants example_killed example_tiles \<lparr>x = 7, y = 1\<rparr> = Inr (Some 2, d'))"
proof -
  have inv: "pool_inv example_constants example_five"
    by code_simp
  have alive: "2 \<in> set (alive_ids example_five)"
    by code_simp
  have trav: "is_traversable example_constants example_killed example_tiles \<lparr>x = 7, y = 1\<rparr> = Inr True"
    by code_simp
  have "dead_ids example_killed = dead_ids example_five @ [2] \<and>
      (\<exists>d'. create_entity example_constants example_killed example_tiles \<lparr>x = 7, y = 1\<rparr> =
         Inr (Some 2, d'))"
    using free_ids_lifo [OF inv, of example_tiles "\<lparr>x = 7, y = 1\<rparr>" 0 example_five 2]
      alive trav example_run(7)
    by auto
  then show ?thesis
    using inv alive example_run by simp
qed

subsection \<open>Grid/position consistency\<close>

lemma create_entity_consistent:
  assumes inv: "pool_inv c d" and res: "create_entity c d tmap pos = Inr (r, d')"
  shows "grid_consistent c d'"
proof (cases r)
  case None
  then show ?thesis
    using create_entity_None res inv unfolding pool_inv_def by blast
next
  case (Some e)
  have shape: "pool_shape c d" and part: "partition_inv c d" and cons: "grid_consistent c d"
    using inv by (simp_all add: pool_inv_def)
  note res' = res [unfolded Some]
  note s = create_entity_Some [OF shape part res']
  note ids = create_entity_ids [OF shape part res']
  have pos: "is_valid_position c pos" "grid_at (grid d) pos = None"
    using is_traversable_True [OF s(2)] by simp_all
  have gpos: "in_grid (grid d) pos"
    using valid_in_grid [OF shape pos(1)] .
  have "e \<in> set (dead_ids d)"
    using ids(2) by simp
  then have e_range: "in_range e (positions d)" and e_new: "e \<notin> set (alive_ids d)"
    using dead_id_in_range [OF shape part] part by (auto simp: partition_inv_def)
  have P: "positions d' = (positions d)[nat e := pos]"
    and G: "grid d' = grid_set (grid d) pos (Some e)"
    by (simp_all add: s(4))
  have range': "in_range a (positions d') = in_range a (positions d)" for a
    by (simp add: P in_range_def)
  have nth_e: "positions d' ! nat e = pos"
    using in_range_nat [OF e_range] by (simp add: P)
  have nth_other: "positions d' ! nat a = positions d ! nat a"
    if "a \<in> set (alive_ids d)" for a
  proof -
    have "in_range a (positions d)" "a \<noteq> e"
      using grid_consistent_alive [OF cons that] that e_new by auto
    then show ?thesis
      using in_range_nat_eq [OF e_range] by (simp add: P)
  qed
  have cell: "grid_at (grid d') p = (if pos = p then Some e else grid_at (grid d) p)"
    if "is_valid_position c p" for p
    using grid_at_grid_set [OF gpos valid_in_grid [OF shape that]] by (simp add: G)
  show ?thesis
  proof (rule grid_consistentI)
    fix a assume a: "a \<in> set (alive_ids d')"
    show "in_range a (positions d') \<and> is_valid_position c (positions d' ! nat a) \<and>
          grid_at (grid d') (positions d' ! nat a) = Some a"
    proof (cases "a = e")
      case True
      then show ?thesis
        using nth_e cell [OF pos(1)] pos(1) e_range by (simp add: range')
    next
      case False
      then have m: "a \<in> set (alive_ids d)" using a by (simp add: ids(1))
      note o = grid_consistent_alive [OF cons m]
      have "pos \<noteq> positions d ! nat a"
        using pos(2) o by auto
      then show ?thesis
        using cell [of "positions d ! nat a"] o nth_other [OF m] by (simp add: range')
    qed
  next
    fix p a assume p: "is_valid_position c p" and g: "grid_at (grid d') p = Some a"
    show "a \<in> set (alive_ids d') \<and> in_range a (positions d') \<and> positions d' ! nat a = p"
    proof (cases "pos = p")
      case True
      then have "a = e" using g cell [OF p] by simp
      then show ?thesis
        using True nth_e e_range by (simp add: ids(1) range')
    next
      case False
      then have "grid_at (grid d) p = Some a" using g cell [OF p] by simp
      note o = grid_consistent_cell [OF cons p this]
      then show ?thesis
        using nth_other [of a] by (simp add: ids(1) range')
    qed
  qed
qed

lemma kill_entity_consistent:
  assumes inv: "pool_inv c d" and res: "kill_entity d e = Inr d'"
  shows "grid_consistent c d'"
proof (cases "e \<in> set (alive_ids d)")
  case False
  then show ?thesis
    using kill_entity_absent [of c d e] res inv by (simp add: pool_inv_def)
next
  case True
  have shape: "pool_shape c d" and part: "partition_inv c d" and cons: "grid_consistent c d"
    using inv by (simp_all add: pool_inv_def)
  note ids = kill_entity_ids [OF shape part True res]
  let ?pe = "positions d ! nat e"
  note oe = grid_consistent_alive [OF cons True]
  have gpe: "in_grid (grid d) ?pe"
    using valid_in_grid [OF shape] oe by simp
  have cell: "grid_at (grid d') p = (if ?pe = p then None else grid_at (grid d) p)"
    if "is_valid_position c p" for p
    using grid_at_grid_set [OF gpe valid_in_grid [OF shape that]] by (simp add: ids(4))
  show ?thesis
  proof (rule grid_consistentI)
    fix a assume "a \<in> set (alive_ids d')"
    then have m: "a \<in> set (alive_ids d)" and ne: "a \<noteq> e"
      by (simp_all add: ids(1))
    note o = grid_consistent_alive [OF cons m]
    have "?pe \<noteq> positions d ! nat a"
      using o oe ne by auto
    then show "in_range a (positions d') \<and> is_valid_position c (positions d' ! nat a) \<and>
          grid_at (grid d') (positions d' ! nat a) = Some a"
      using o cell [of "positions d ! nat a"] by (simp add: ids(3))
  next
    fix p a assume p: "is_valid_position c p" and g: "grid_at (grid d') p = Some a"
    have ne: "?pe \<noteq> p" and old: "grid_at (grid d) p = Some a"
      using g cell [OF p] by (auto split: if_splits)
    note o = grid_consistent_cell [OF cons p old]
    have "a \<noteq> e"
      using o ne by auto
    then show "a \<in> set (alive_ids d') \<and> in_range a (positions d') \<and> positions d' ! nat a = p"
      using o by (simp add: ids(1) ids(3))
  qed
qed

lemma move_entity_consistent:
  assumes inv: "pool_inv c d" and alive: "e \<in> set (alive_ids d)"
    and res: "move_entity c d tmap e dir = Inr (b, d')"
  shows "grid_consistent c d'"
proof (cases b)
  case False
  then show ?thesis
    using move_entity_result(2) [OF res] inv by (simp add: pool_inv_def)
next
  case True
  have shape: "pool_shape c d" and part: "partition_inv c d" and cons: "grid_consistent c d"
    using inv by (simp_all add: pool_inv_def)
  let ?cur = "positions d ! nat e"
  let ?new = "get_new_position ?cur dir"
  note d' = move_entity_result(4) [OF res True]
  note oe = grid_consistent_alive [OF cons alive]
  have new: "is_valid_position c ?new" "grid_at (grid d) ?new = None"
    using is_traversable_True [OF move_entity_result(3) [OF res True]] by simp_all
  have e_range: "in_range e (positions d)"
    using oe by simp
  have gcur: "in_grid (grid d) ?cur" and gnew: "in_grid (grid d) ?new"
    using valid_in_grid [OF shape] oe new(1) by simp_all
  have ids: "alive_ids d' = alive_ids d"
    by (simp add: d' alive_ids_def)
  have range': "in_range a (positions d') = in_range a (positions d)" for a
    by (simp add: d' in_range_def)
  have nth_e: "positions d' ! nat e = ?new"
    using in_range_nat [OF e_range] by (simp add: d')
  have nth_other: "positions d' ! nat a = positions d ! nat a"
    if "in_range a (positions d)" "a \<noteq> e" for a
    using in_range_nat_eq [OF e_range that(1)] that(2) by (simp add: d')
  have cell: "grid_at (grid d') p =
      (if ?new = p then Some e else if ?cur = p then None else grid_at (grid d) p)"
    if "is_valid_position c p" for p
  proof -
    have gp: "in_grid (grid d) p"
      using valid_in_grid [OF shape that] .
    have "grid_at (grid d') p =
        (if ?new = p then Some e else grid_at (grid_set (grid d) ?cur None) p)"
      using grid_at_grid_set [of "grid_set (grid d) ?cur None" ?new p "Some e"] gnew gp
      by (simp add: d')
    then show ?thesis
      using grid_at_grid_set [OF gcur gp, of None] by simp
  qed
  show ?thesis
  proof (rule grid_consistentI)
    fix a assume "a \<in> set (alive_ids d')"
    then have m: "a \<in> set (alive_ids d)"
      by (simp add: ids)
    show "in_range a (positions d') \<and> is_valid_position c (positions d' ! nat a) \<and>
          grid_at (grid d') (positions d' ! nat a) = Some a"
    proof (cases "a = e")
      case True
      then show ?thesis
        using nth_e new(1) e_range cell [OF new(1)] by (simp add: range')
    next
      case False
      note o = grid_consistent_alive [OF cons m]
      have "?new \<noteq> positions d ! nat a" "?cur \<noteq> positions d ! nat a"
        using o oe new(2) False by auto
      then show ?thesis
        using o cell [of "positions d ! nat a"] nth_other [of a] False by (simp add: range')
    qed
  next
    fix p a assume p: "is_valid_position c p" and g: "grid_at (grid d') p = Some a"
    show "a \<in> set (alive_ids d') \<and> in_range a (positions d') \<and> positions d' ! nat a = p"
    proof (cases "?new = p")
      case True
      then have "a = e" using g cell [OF p] by simp
      then show ?thesis
        using True nth_e alive e_range by (simp add: ids range')
    next
      case False
      then have ne: "?cur \<noteq> p" and old: "grid_at (grid d) p = Some a"
        using g cell [OF p] by (auto split: if_splits)
      note o = grid_consistent_cell [OF cons p old]
      have "a \<noteq> e"
        using o ne by auto
      then show ?thesis
        using o nth_other [of a] by (simp add: ids range')
    qed
  qed
qed

lemma move_entity_total:
  assumes inv: "pool_inv c d" and alive: "e \<in> set (alive_ids d)"
    and cov: "tile_map_covers c tmap"
  shows "\<exists>b d'. move_entity c d tmap e dir = Inr (b, d')"
proof -
  have shape: "pool_shape c d" and cons: "grid_consistent c d"
    using inv by (simp_all add: pool_inv_def)
  let ?cur = "positions d ! nat e"
  let ?new = "get_new_position ?cur dir"
  note oe = grid_consistent_alive [OF cons alive]
  obtain t where t: "is_traversable c d tmap ?new = Inr t"
    using is_traversable_total [OF cov] by blast
  show ?thesis
  proof (cases t)
    case False
    then have "move_entity c d tmap e dir = Inr (False, d)"
      using t oe by (simp add: move_entity_def Let_def)
    then show ?thesis by blast
  next
    case True
    then have "in_grid (grid d) ?cur" "in_grid (grid d) ?new"
      using valid_in_grid [OF shape] oe is_traversable_True [of c d tmap ?new] t by simp_all
    then have "\<exists>d'. move_entity c d tmap e dir = Inr (True, d')"
      using t True oe by (simp add: move_entity_def Let_def)
    then show ?thesis by blast
  qed
qed

text \<open>
  Claim C3. Every public operation preserves grid/position consistency. On a pool
  satisfying the invariants (declared sizes, partition, grid/position consistency), after
  every call of \<open>create_entity\<close>, at any position and with any tile map, of \<open>kill_entity\<close>,
  on any id, and of \<open>move_entity\<close>, on a live id as the operation assumes, in any direction
  and with any tile map, the pool satisfies grid/position consistency, and the other
  invariants with it: every live id sits in the grid cell of its position, and every
  occupied cell holds a live id whose position is that cell. \<open>kill_entity\<close> always returns;
  \<open>create_entity\<close> and \<open>move_entity\<close> return whenever the tile map covers the grid.
\<close>

theorem operations_preserve_grid_consistency:
  assumes "pool_inv c d"
  shows "(create_entity c d tmap pos = Inr (r, d1) \<longrightarrow> grid_consistent c d1 \<and> pool_inv c d1) \<and>
         (\<exists>d2. kill_entity d e = Inr d2 \<and> grid_consistent c d2 \<and> pool_inv c d2) \<and>
         (a \<in> set (alive_ids d) \<and> move_entity c d tmap a dir = Inr (b, d3) \<longrightarrow>
            grid_consistent c d3 \<and> pool_inv c d3) \<and>
         (tile_map_covers c tmap \<longrightarrow>
            (\<exists>r d'. create_entity c d tmap pos = Inr (r, d')) \<and>
            (a \<in> set (alive_ids d) \<longrightarrow> (\<exists>b d'. move_entity c d tmap a dir = Inr (b, d'))))"
proof (intro conjI impI)
  have shape: "pool_shape c d" and part: "partition_inv c d"
    using assms by (simp_all add: pool_inv_def)
  {
    assume c1: "create_entity c d tmap pos = Inr (r, d1)"
    show "grid_consistent c d1" and "pool_inv c d1"
      using create_entity_consistent [OF assms c1] create_entity_shape [OF shape part c1]
        create_entity_partition [OF shape part c1]
      by (simp_all add: pool_inv_def)
  }
  obtain d2 where k: "kill_entity d e = Inr d2"
    using kill_entity_total [OF assms] by blast
  then show "\<exists>d2. kill_entity d e = Inr d2 \<and> grid_consistent c d2 \<and> pool_inv c d2"
    using kill_entity_consistent [OF assms k] kill_entity_shape_partition [OF shape part k]
    by (auto simp: pool_inv_def)
  {
    assume m: "a \<in> set (alive_ids d) \<and> move_entity c d tmap a dir = Inr (b, d3)"
    then have alive: "a \<in> set (alive_ids d)" and mv: "move_entity c d tmap a dir = Inr (b, d3)"
      by simp_all
    show "grid_consistent c d3" and "pool_inv c d3"
      using move_entity_consistent [OF assms alive mv]
        move_entity_shape_partition [OF shape part mv]
      by (simp_all add: pool_inv_def)
  }
  assume cov: "tile_map_covers c tmap"
  show "\<exists>r d'. create_entity c d tmap pos = Inr (r, d')"
    using create_entity_total [OF shape part cov] .
  show "\<exists>b d'. move_entity c d tmap a dir = Inr (b, d')" if "a \<in> set (alive_ids d)"
    using move_entity_total [OF assms that cov] .
qed

text \<open>On \<open>example_two\<close>: creation at (5,5), the kill of id 3 and the move of id 4 to the
  EAST, which takes it from (2,3) to (1,3), each leave a consistent pool.\<close>

theorem operations_preserve_grid_consistency_witness:
  "pool_inv example_constants example_two \<and> tile_map_covers example_constants example_tiles \<and>
   4 \<in> set (alive_ids example_two) \<and>
   create_entity example_constants example_two example_tiles \<lparr>x = 5, y = 5\<rparr> = Inr (Some 2, example_three) \<and>
   grid_consistent example_constants example_three \<and>
   (\<exists>d'. kill_entity example_two 3 = Inr d' \<and> grid_consistent example_constants d') \<and>
   (\<exists>d'. move_entity example_constants example_two example_tiles 4 EAST = Inr (True, d') \<and>
      grid_at (grid d') \<lparr>x = 1, y = 3\<rparr> = Some 4 \<and> grid_consistent example_constants d')"
proof -
  have inv: "pool_inv example_constants example_two"
    by code_simp
  have cov: "tile_map_covers example_constants example_tiles"
    by code_simp
  have alive: "4 \<in> set (alive_ids example_two)"
    by code_simp
  have cr: "create_entity example_constants example_two example_tiles \<lparr>x = 5, y = 5\<rparr> =
      Inr (Some 2, example_three)"
    by code_simp
  let ?moved = "example_two\<lparr>positions := (positions example_two)[4 := \<lparr>x = 1, y = 3\<rparr>],
      grid := (replicate 10 (replicate 10 None))
        [1 := (replicate 10 None)[3 := Some 4], 2 := (replicate 10 None)[2 := Some 3]]\<rparr>"
  have mv: "move_entity example_constants example_two example_tiles 4 EAST = Inr (True, ?moved)"
    "grid_at (grid ?moved) \<lparr>x = 1, y = 3\<rparr> = Some 4"
    by code_simp+
  have "grid_consistent example_constants example_three"
    using operations_preserve_grid_consistency [OF inv, of example_tiles "\<lparr>x = 5, y = 5\<rparr>"
        "Some 2" example_three 3 4 EAST True ?moved] cr
    by blast
  moreover have "\<exists>d'. kill_entity example_two 3 = Inr d' \<and> grid_consistent example_constants d'"
    using operations_preserve_grid_consistency [OF inv, of example_tiles "\<lparr>x = 5, y = 5\<rparr>"
        "Some 2" example_three 3 4 EAST True ?moved]
    by blast
  moreover have "grid_consistent example_constants ?moved"
    using operations_preserve_grid_consistency [OF inv, of example_tiles "\<lparr>x = 5, y = 5\<rparr>"
        "Some 2" example_three 3 4 EAST True ?moved] alive mv(1)
    by blast
  ultimately show ?thesis
    using inv cov alive cr mv by blast
qed

end
